theory Spec2Isabelle
  imports
    Complex_Main
    "HOL-Library.Sublist"
    "HOL-Library.List_Lexorder"
    "HOL-Library.Char_ord"
    "HOL-Library.AList"
begin

section \<open>Strings\<close>

text \<open>
  Python strings are modelled as \<^typ>\<open>string\<close> (lists of 8-bit characters), so the
  prompts covered are the ASCII ones: \<open>str.lower\<close> maps \<open>A\<close>..\<open>Z\<close> to \<open>a\<close>..\<open>z\<close>
  and leaves every other character alone, \<open>\d\<close> is \<open>0\<close>..\<open>9\<close> and \<open>\w\<close> is
  \<open>[A-Za-z0-9_]\<close>.
\<close>

definition char_lower :: "char \<Rightarrow> char" where
  "char_lower c =
     (case map_of (zip ''ABCDEFGHIJKLMNOPQRSTUVWXYZ'' ''abcdefghijklmnopqrstuvwxyz'') c of
        Some l \<Rightarrow> l
      | None \<Rightarrow> c)"

definition lower :: "string \<Rightarrow> string" where
  "lower s = map char_lower s"

text \<open>\<open>k in s\<close> for strings: \<open>contains s k\<close>.\<close>

fun contains :: "string \<Rightarrow> string \<Rightarrow> bool" where
  "contains [] k = (k = [])"
| "contains (c # cs) k = (prefix k (c # cs) \<or> contains cs k)"

text \<open>\<open>sep.join(xs)\<close>.\<close>

fun join :: "string \<Rightarrow> string list \<Rightarrow> string" where
  "join sep [] = []"
| "join sep [x] = x"
| "join sep (x # y # ys) = x @ sep @ join sep (y # ys)"

definition is_digit :: "char \<Rightarrow> bool" where
  "is_digit c = (c \<in> set ''0123456789'')"

definition is_word :: "char \<Rightarrow> bool" where
  "is_word c =
     (c \<in> set ''abcdefghijklmnopqrstuvwxyzABCDEFGHIJKLMNOPQRSTUVWXYZ0123456789_'')"

subsection \<open>The regular expression \<open>\bdata(\d+)\b\<close>\<close>

text \<open>
  \<open>re.search\<close> tries every start position from the left. At a position the pattern
  needs a word boundary before the \<open>d\<close> (start of the string, or a non-word character
  before it), the letters \<open>data\<close>, a run of digits and a word boundary after the run.
  A digit is a word character, so only the maximal run of digits can be followed by a
  boundary: the greedy \<open>\d+\<close> never succeeds after backtracking. \<open>prev\<close> is the
  character before the position, if any. The result is group 1, the digits.
\<close>

definition boundary_before :: "char option \<Rightarrow> bool" where
  "boundary_before prev = (case prev of None \<Rightarrow> True | Some p \<Rightarrow> \<not> is_word p)"

definition boundary_after :: "string \<Rightarrow> bool" where
  "boundary_after rest = (case rest of [] \<Rightarrow> True | a # _ \<Rightarrow> \<not> is_word a)"

definition match_here :: "char option \<Rightarrow> string \<Rightarrow> string option" where
  "match_here prev s =
     (if boundary_before prev \<and> prefix ''data'' s then
        (let rest = drop 4 s; ds = takeWhile is_digit rest
         in if ds \<noteq> [] \<and> boundary_after (dropWhile is_digit rest) then Some ds else None)
      else None)"

fun search_from :: "char option \<Rightarrow> string \<Rightarrow> string option" where
  "search_from prev [] = None"
| "search_from prev (c # cs) =
     (case match_here prev (c # cs) of
        Some ds \<Rightarrow> Some ds
      | None \<Rightarrow> search_from (Some c) cs)"

definition re_search_dataset :: "string \<Rightarrow> string option" where
  "re_search_dataset s = search_from None s"

text \<open>
  What a match is, independently of the search: \<open>s\<close> splits into \<open>pre\<close>, the letters
  \<open>data\<close>, the digits \<open>ds\<close> and \<open>post\<close>, with a word boundary on both sides.
\<close>

definition data_token ::
  "char option \<Rightarrow> string \<Rightarrow> string \<Rightarrow> string \<Rightarrow> string \<Rightarrow> bool" where
  "data_token prev s pre ds post =
     (s = pre @ ''data'' @ ds @ post \<and> ds \<noteq> [] \<and> list_all is_digit ds \<and>
      boundary_before (if pre = [] then prev else Some (last pre)) \<and> boundary_after post)"

section \<open>Prompt parsing (\<open>app.py\<close>, \<open>parse_columns\<close>)\<close>

text \<open>The keyword table, in the insertion order of the dictionary literal.\<close>

definition col_map :: "(string \<times> string) list" where
  "col_map =
     [(''temp one'', ''temperature_one''),
      (''temperature one'', ''temperature_one''),
      (''temp1'', ''temperature_one''),
      (''temp two'', ''temperature_two''),
      (''temperature two'', ''temperature_two''),
      (''temp2'', ''temperature_two''),
      (''vibration x'', ''vibration_x''),
      (''vib x'', ''vibration_x''),
      (''vibration y'', ''vibration_y''),
      (''vib y'', ''vibration_y''),
      (''vibration z'', ''vibration_z''),
      (''vib z'', ''vibration_z'')]"

definition parse_columns :: "string \<Rightarrow> string list \<times> string option" where
  "parse_columns prompt =
     (let prompt_lower = lower prompt;
          dataset = (case re_search_dataset prompt_lower of
                       Some digits \<Rightarrow> Some (''data'' @ digits)
                     | None \<Rightarrow> None);
          columns = map snd (filter (\<lambda>(k, v). contains prompt_lower k) col_map)
      in (columns, dataset))"

section \<open>The file system\<close>

text \<open>
  A path is the list of its components below \<open>BASE_DIR\<close>; the file system is an
  association list from paths to nodes, whose order stands for the order in which the
  operating system lists a directory. \<open>resolve()\<close> is the identity (no symbolic links),
  and modification times are natural numbers.
\<close>

type_synonym path = "string list"

datatype node = File (content: string) (mtime: nat) | Dir (mtime: nat)

type_synonym fs = "(path \<times> node) list"

definition TEMP_DIR :: path where
  "TEMP_DIR = [''temp'']"

definition DATA_EXTS :: "string list" where
  "DATA_EXTS = [''.csv'', ''.tsv'', ''.xlsx'', ''.xls'', ''.json'']"

definition path_exists :: "fs \<Rightarrow> path \<Rightarrow> bool" where
  "path_exists fs p = (map_of fs p \<noteq> None)"

definition is_file :: "fs \<Rightarrow> path \<Rightarrow> bool" where
  "is_file fs p = (case map_of fs p of Some (File c m) \<Rightarrow> True | _ \<Rightarrow> False)"

definition is_dir :: "fs \<Rightarrow> path \<Rightarrow> bool" where
  "is_dir fs p = (case map_of fs p of Some (Dir m) \<Rightarrow> True | _ \<Rightarrow> False)"

definition st_mtime :: "fs \<Rightarrow> path \<Rightarrow> nat" where
  "st_mtime fs p = (case map_of fs p of Some n \<Rightarrow> mtime n | None \<Rightarrow> 0)"

text \<open>\<open>d.iterdir()\<close>: the children of \<open>d\<close>, in the order of the listing.\<close>

definition iterdir :: "fs \<Rightarrow> path \<Rightarrow> path list" where
  "iterdir fs d = filter (\<lambda>p. p \<noteq> [] \<and> butlast p = d) (map fst fs)"

text \<open>\<open>p.name\<close> is \<^term>\<open>last p\<close>. \<open>p.suffix\<close> of a name: from its last dot on, unless
  that dot is the first or the last character of the name.\<close>

definition path_suffix :: "string \<Rightarrow> string" where
  "path_suffix name =
     (let ext = rev (takeWhile (\<lambda>c. c \<noteq> CHR ''.'') (rev name));
          i = length name - length ext - 1
      in if CHR ''.'' \<in> set name \<and> 0 < i \<and> ext \<noteq> [] then drop i name else [])"

text \<open>\<open>str(p)\<close>.\<close>

definition path_str :: "path \<Rightarrow> string" where
  "path_str p = join ''/'' p"

text \<open>\<open>d.glob("*.png")\<close>: the children of \<open>d\<close>, files or not, whose name ends in \<open>.png\<close>.\<close>

definition glob_png :: "fs \<Rightarrow> path \<Rightarrow> path list" where
  "glob_png fs d = filter (\<lambda>p. suffix ''.png'' (last p)) (iterdir fs d)"

text \<open>
  Exceptions are values (their message). The operations that touch the disk fail when
  their own precondition fails, or when the environment says so (a full disk, a missing
  permission): the environment is the record \<open>env\<close> below.
\<close>

type_synonym exn = string

text \<open>\<open>shutil.copy2(src, dst)\<close>: content and modification time of a file.\<close>

definition copy2 :: "exn option \<Rightarrow> fs \<Rightarrow> path \<Rightarrow> path \<Rightarrow> exn + fs" where
  "copy2 fault fs src dst =
     (case fault of
        Some e \<Rightarrow> Inl e
      | None \<Rightarrow>
          (case map_of fs src of
             Some (File c m) \<Rightarrow> Inr (AList.update dst (File c m) fs)
           | Some (Dir m) \<Rightarrow> Inl ''IsADirectoryError''
           | None \<Rightarrow> Inl ''FileNotFoundError''))"

text \<open>\<open>p.unlink()\<close>.\<close>

definition unlink :: "exn option \<Rightarrow> fs \<Rightarrow> path \<Rightarrow> exn + fs" where
  "unlink fault fs p =
     (case fault of
        Some e \<Rightarrow> Inl e
      | None \<Rightarrow>
          (case map_of fs p of
             Some (File c m) \<Rightarrow> Inr (AList.delete p fs)
           | Some (Dir m) \<Rightarrow> Inl ''IsADirectoryError''
           | None \<Rightarrow> Inl ''FileNotFoundError''))"

text \<open>
  \<open>shutil.rmtree(d)\<close> removes \<open>d\<close> and everything below it. When it fails it has
  removed some of these paths already: the fault says which.
\<close>

definition rmtree :: "(exn \<times> (path \<Rightarrow> bool)) option \<Rightarrow> fs \<Rightarrow> path \<Rightarrow> exn option \<times> fs" where
  "rmtree fault fs d =
     (case fault of
        None \<Rightarrow> (None, filter (\<lambda>(p, n). \<not> prefix d p) fs)
      | Some (e, removed) \<Rightarrow> (Some e, filter (\<lambda>(p, n). \<not> (prefix d p \<and> removed p)) fs))"

text \<open>\<open>d.mkdir(parents=True, exist_ok=True)\<close>, for a \<open>d\<close> whose parent exists.\<close>

definition mkdir :: "nat \<Rightarrow> fs \<Rightarrow> path \<Rightarrow> fs" where
  "mkdir now fs d = (if path_exists fs d then fs else fs @ [(d, Dir now)])"

section \<open>Dataset resolution (\<open>app.py\<close>, \<open>find_dataset_path\<close>)\<close>

text \<open>
  \<open>DATA_EXTS\<close> is a set in the source and the loop over it has no fixed order; the
  list above fixes one. \<open>sorted\<close> compares paths component by component, strings by
  code point.
\<close>

definition is_dataset_file :: "fs \<Rightarrow> path \<Rightarrow> bool" where
  "is_dataset_file fs p =
     (is_file fs p \<and> prefix ''data'' (last p) \<and> lower (path_suffix (last p)) \<in> set DATA_EXTS)"

definition find_dataset_path :: "fs \<Rightarrow> string option \<Rightarrow> path option" where
  "find_dataset_path fs dataset_name =
     (if dataset_name \<noteq> None \<and> dataset_name \<noteq> Some [] then
        List.find (path_exists fs) (map (\<lambda>ext. TEMP_DIR @ [the dataset_name @ ext]) DATA_EXTS)
      else
        List.find (is_dataset_file fs) (sort (iterdir fs TEMP_DIR)))"

section \<open>Trend of a series (\<open>utils/report_generator.py\<close>, \<open>calculate_trend\<close>)\<close>






section \<open>The state of the application\<close>

text \<open>
  \<open>st.session_state\<close>: the Persistent Artifact Slot is \<open>last_plot\<close> with its display
  name \<open>last_plot_filename\<close>. The slot holds a path; the source stores \<open>str\<close> of it
  and reads it back with \<open>Path\<close>.
\<close>

record session =
  last_plot :: "path option"
  last_plot_filename :: "string option"
  team_state :: "string option"
  messages :: "string list"
  last_code_developer_msg :: "string option"

text \<open>The execution sandbox (\<open>LocalCommandLineCodeExecutor\<close>) is fresh for every query.\<close>

datatype sandbox_state = Fresh | Running | Stopped

text \<open>What the program does that can be observed from outside, in order.\<close>

datatype event =
    StartOk
  | StartFailed exn
  | StopOk
  | StopFailed exn
  | RunStream string
  | Yielded string
  | Printed string
  | UiWarning string
  | UiError string
  | UiSuccess string
  | ReportGenerated path "string list"

record world =
  files :: fs
  state :: session
  sandbox :: sandbox_state
  trace :: "event list"

definition emit :: "event list \<Rightarrow> world \<Rightarrow> world" where
  "emit es w = w\<lparr>trace := trace w @ es\<rparr>"

text \<open>
  What \<open>team.run_stream\<close> delivers: text messages, the final task result, and events of
  other types, which \<open>orchestrate\<close> ignores.
\<close>

datatype stream_item =
    TextMessage (source: string) (text_content: string)
  | TaskResult (stop_reason: "string option")
  | OtherEvent

text \<open>
  The environment of one query: everything the source gets from outside. \<open>run_id\<close>
  is \<open>uuid.uuid4().hex\<close>; the faults say which calls raise; \<open>run_stream\<close> is what the
  team's stream delivers for a task, items and then possibly an exception;
  \<open>run_files\<close> is what the executed code does to the disk.
\<close>

record env =
  run_id :: string
  clock :: nat
  copy_fault :: "path \<Rightarrow> path \<Rightarrow> exn option"
  unlink_fault :: "path \<Rightarrow> exn option"
  scan_fault :: "exn option"
  rmtree_fault :: "(exn \<times> (path \<Rightarrow> bool)) option"
  start_fault :: "exn option"
  stop_fault :: "sandbox_state \<Rightarrow> exn option"
  load_state_fault :: "exn option"
  save_state_result :: "exn + string"
  run_stream :: "string \<Rightarrow> stream_item list \<times> exn option"
  run_files :: "fs \<Rightarrow> fs"
  read_dataset :: "path \<Rightarrow> exn option"

section \<open>The orchestration loop (\<open>utils/data.py\<close>)\<close>

text \<open>The team as \<open>team_config\<close> builds it.\<close>

record team =
  participants :: "string list"
  termination_text :: string
  max_turns :: nat

definition team_config :: team where
  "team_config =
     \<lparr>participants = [''code_developer'', ''code_executor''],
      termination_text = ''TERMINATE'',
      max_turns = 20\<rparr>"

text \<open>The string \<open>orchestrate\<close> yields for an item of the stream, if any.\<close>

fun render :: "stream_item \<Rightarrow> string option" where
  "render (TextMessage src c) = Some (src @ '': '' @ c)"
| "render (TaskResult r) =
     Some (''Stopping reason: '' @ (case r of None \<Rightarrow> ''None'' | Some s \<Rightarrow> s))"
| "render OtherEvent = None"

text \<open>\<open>local_executor.stop()\<close>: the exception, if it raises.\<close>

definition sandbox_stop :: "env \<Rightarrow> world \<Rightarrow> exn option \<times> world" where
  "sandbox_stop env w =
     (case stop_fault env (sandbox w) of
        None \<Rightarrow> (None, (emit [StopOk] w)\<lparr>sandbox := Stopped\<rparr>)
      | Some e \<Rightarrow> (Some e, emit [StopFailed e] w))"

text \<open>
  \<open>orchestrate\<close> is a generator; its caller takes every item. The result is the list
  of the strings yielded and the exception that ends the iteration, if any.
\<close>

definition orchestrate :: "env \<Rightarrow> string \<Rightarrow> world \<Rightarrow> (string list \<times> exn option) \<times> world" where
  "orchestrate env task w =
     (case start_fault env of
        Some e \<Rightarrow>
          (([], Some e), emit [StartFailed e, Printed (''Executor failed to start: '' @ e)] w)
      | None \<Rightarrow>
          (let w1 = (emit [StartOk, RunStream task] w)\<lparr>sandbox := Running\<rparr>;
               (items, err) = run_stream env task;
               msgs = List.map_filter render items;
               w2 = (emit (concat (map (\<lambda>msg. [Printed msg, Yielded msg]) msgs)) w1)
                      \<lparr>files := run_files env (files w1)\<rparr>;
               (stop_err, w3) = sandbox_stop env w2;
               w4 = (case stop_err of
                       None \<Rightarrow> w3
                     | Some e \<Rightarrow> emit [Printed (''Failed to stop executor cleanly: '' @ e)] w3)
           in ((msgs, err), w4)))"

subsection \<open>The turn loop of the team\<close>

text \<open>
  Modelled from the spec: the turn loop itself (\<open>RoundRobinGroupChat.run_stream\<close>) is
  not in the source files; the source only configures it (\<^term>\<open>team_config\<close>). The
  spec's state machine: from \<open>AWAITING_DEVELOPER\<close> the Developer emits one message; if its
  content contains the terminator phrase the loop is terminated by the phrase, otherwise
  it is the Executor's turn; from \<open>AWAITING_EXECUTOR\<close> the Executor emits one message
  and it is the Developer's turn again; after the maximum number of turns the loop
  force-stops with reason \<open>max-turns-exceeded\<close>. An agent is a function from the
  history (the task first) to its next message.
\<close>

datatype loop_state = AWAITING_DEVELOPER | AWAITING_EXECUTOR

type_synonym agents = "string \<Rightarrow> (string \<times> string) list \<Rightarrow> string"

fun turns ::
  "string \<Rightarrow> string \<Rightarrow> string \<Rightarrow> agents \<Rightarrow> nat \<Rightarrow> loop_state \<Rightarrow> (string \<times> string) list \<Rightarrow>
     stream_item list" where
  "turns dev exe phrase ag 0 s hist = [TaskResult (Some ''max-turns-exceeded'')]"
| "turns dev exe phrase ag (Suc n) AWAITING_DEVELOPER hist =
     (let m = ag dev hist
      in TextMessage dev m #
           (if contains m phrase then [TaskResult (Some ''phrase'')]
            else turns dev exe phrase ag n AWAITING_EXECUTOR (hist @ [(dev, m)])))"
| "turns dev exe phrase ag (Suc n) AWAITING_EXECUTOR hist =
     (let m = ag exe hist
      in TextMessage exe m # turns dev exe phrase ag n AWAITING_DEVELOPER (hist @ [(exe, m)]))"

definition team_run_stream :: "team \<Rightarrow> agents \<Rightarrow> string \<Rightarrow> stream_item list" where
  "team_run_stream t ag task =
     (case participants t of
        [dev, exe] \<Rightarrow>
          turns dev exe (termination_text t) ag (max_turns t) AWAITING_DEVELOPER [(''user'', task)]
      | _ \<Rightarrow> [])"

section \<open>One query (\<open>app.py\<close>, \<open>query\<close>)\<close>

text \<open>Lines 231 to 240: the run directory and the copies of the datasets.\<close>

definition seed_run_dir :: "env \<Rightarrow> path \<Rightarrow> world \<Rightarrow> world" where
  "seed_run_dir env run_dir w =
     (let w0 = w\<lparr>files := mkdir (clock env) (files w) run_dir\<rparr>
      in fold
           (\<lambda>p w'.
              if is_file (files w') p \<and> prefix ''data'' (last p) then
                (case copy2 (copy_fault env p (run_dir @ [last p])) (files w') p
                        (run_dir @ [last p]) of
                   Inl e \<Rightarrow> emit [Printed (''Warning: could not copy into run_dir: '' @ e)] w'
                 | Inr fs' \<Rightarrow> w'\<lparr>files := fs'\<rparr>)
              else w')
           (iterdir (files w0) TEMP_DIR) w0)"

text \<open>Lines 244 to 248.\<close>

definition load_team_state :: "env \<Rightarrow> world \<Rightarrow> world" where
  "load_team_state env w =
     (case team_state (state w) of
        None \<Rightarrow> w
      | Some blob \<Rightarrow>
          (case load_state_fault env of
             None \<Rightarrow> w
           | Some e \<Rightarrow> emit [Printed (''Warning: failed to load team state: '' @ e)] w))"

text \<open>Lines 250 to 257: the task.\<close>

definition dataset_paths :: "fs \<Rightarrow> path \<Rightarrow> path list" where
  "dataset_paths fs run_dir = filter (is_dataset_file fs) (iterdir fs run_dir)"

definition make_task :: "string \<Rightarrow> string list \<Rightarrow> string" where
  "make_task prompt file_paths =
     prompt @ [CHR 0x0A] @ ''Available datasets: '' @ join '', '' file_paths"

text \<open>Lines 263 to 270: the caller keeps the last three turn messages.\<close>

fun consume :: "string list \<Rightarrow> string list \<Rightarrow> string list" where
  "consume non_meta_messages [] = non_meta_messages"
| "consume non_meta_messages (msg # rest) =
     (if prefix ''code_executor'' msg \<or> prefix ''code_developer'' msg then
        (let appended = non_meta_messages @ [msg]
         in consume (if length appended > 3 then tl appended else appended) rest)
      else consume non_meta_messages rest)"

text \<open>Lines 273 to 276.\<close>

definition save_team_state :: "env \<Rightarrow> world \<Rightarrow> world" where
  "save_team_state env w =
     (case save_state_result env of
        Inr blob \<Rightarrow> w\<lparr>state := (state w)\<lparr>team_state := Some blob\<rparr>\<rparr>
      | Inl e \<Rightarrow> emit [Printed (''Warning: failed to save team state: '' @ e)] w)"

text \<open>
  Lines 278 to 312: artifact promotion. \<open>sorted\<close> is stable, as \<^const>\<open>sort_key\<close> is, so
  among the images with the latest modification time the last one of the listing wins.
\<close>

definition promote :: "env \<Rightarrow> path \<Rightarrow> world \<Rightarrow> world" where
  "promote env run_dir w =
     (case scan_fault env of
        Some e \<Rightarrow> emit [Printed (''Warning while scanning run_dir for PNGs: '' @ e)] w
      | None \<Rightarrow>
          (let pngs = sort_key (st_mtime (files w)) (glob_png (files w) run_dir)
           in if pngs = [] then w
              else
                (let latest_png = last pngs;
                     dest = TEMP_DIR @ [run_id env @ ''_'' @ last latest_png];
                     previous_path = (if last_plot (state w) = Some [] then None
                                      else last_plot (state w))
                 in case copy2 (copy_fault env latest_png dest) (files w) latest_png dest of
                      Inl e \<Rightarrow>
                        emit [Printed (''Warning: failed to copy plot to persistent storage: '' @ e)] w
                    | Inr copied \<Rightarrow>
                        (let w1 = w\<lparr>files := copied,
                                    state := (state w)\<lparr>last_plot := Some dest,
                                                       last_plot_filename := Some (last dest)\<rparr>\<rparr>
                         in case previous_path of
                              None \<Rightarrow> w1
                            | Some prev \<Rightarrow>
                                (if path_exists copied prev \<and> prev \<noteq> dest then
                                   (case unlink (unlink_fault env prev) copied prev of
                                      Inl e \<Rightarrow>
                                        emit [Printed (''Warning: could not remove previous persistent plot: '' @ e)] w1
                                    | Inr removed \<Rightarrow> w1\<lparr>files := removed\<rparr>)
                                 else w1)))))"

text \<open>Lines 314 to 317: the caller's own attempt to stop the sandbox.\<close>

definition stop_quietly :: "env \<Rightarrow> world \<Rightarrow> world" where
  "stop_quietly env w = snd (sandbox_stop env w)"

text \<open>Lines 319 to 323.\<close>

definition destroy_run_dir :: "env \<Rightarrow> path \<Rightarrow> world \<Rightarrow> world" where
  "destroy_run_dir env run_dir w =
     (if path_exists (files w) run_dir \<and> is_dir (files w) run_dir then
        (case rmtree (rmtree_fault env) (files w) run_dir of
           (None, fs') \<Rightarrow> w\<lparr>files := fs'\<rparr>
         | (Some e, fs') \<Rightarrow>
             emit [Printed (''Warning: could not remove run_dir: '' @ e)] (w\<lparr>files := fs'\<rparr>))
      else w)"

text \<open>The \<open>finally\<close> block of \<open>query\<close>, lines 271 to 323.\<close>

definition finally_block :: "env \<Rightarrow> path \<Rightarrow> world \<Rightarrow> world" where
  "finally_block env run_dir w =
     destroy_run_dir env run_dir
       (stop_quietly env (promote env run_dir (save_team_state env w)))"

text \<open>Lines 325 to 338: the message kept for the next rendering.\<close>

definition publish :: "string list \<Rightarrow> world \<Rightarrow> world" where
  "publish non_meta_messages w =
     (let last_developer_msg = List.find (prefix ''code_developer'') (rev non_meta_messages)
      in w\<lparr>state := (state w)
              \<lparr>last_code_developer_msg := last_developer_msg,
               messages := (case last_developer_msg of
                              None \<Rightarrow> []
                            | Some msg \<Rightarrow> if msg = [] then [] else [msg])\<rparr>\<rparr>)"

text \<open>
  \<open>query\<close>: an exception of the loop runs the \<open>finally\<close> block and then leaves
  \<open>query\<close>; the result is that exception, if any, and the world afterwards.
\<close>

definition query :: "env \<Rightarrow> string \<Rightarrow> world \<Rightarrow> exn option \<times> world" where
  "query env prompt w =
     (let run_dir = TEMP_DIR @ [run_id env];
          w1 = (seed_run_dir env run_dir w)\<lparr>sandbox := Fresh\<rparr>;
          w2 = load_team_state env w1;
          file_paths = map path_str (dataset_paths (files w2) run_dir);
          task = make_task prompt file_paths;
          ((msgs, err), w3) = orchestrate env task w2;
          non_meta_messages = consume [] msgs;
          w4 = finally_block env run_dir w3
      in case err of
           Some e \<Rightarrow> (Some e, w4)
         | None \<Rightarrow> (None, publish non_meta_messages w4))"

section \<open>A submitted prompt (\<open>app.py\<close>, lines 179 to 343)\<close>

text \<open>Lines 181 to 195: images in the workspace other than the slot's are removed.\<close>

definition cleanup_stale_pngs :: "env \<Rightarrow> world \<Rightarrow> world" where
  "cleanup_stale_pngs env w =
     (let persistent_path = (if last_plot (state w) = Some [] then None
                             else last_plot (state w))
      in fold
           (\<lambda>p w'.
              if is_file (files w') p \<and> lower (path_suffix (last p)) = ''.png'' then
                (if persistent_path = Some p then w'
                 else
                   (case unlink (unlink_fault env p) (files w') p of
                      Inl e \<Rightarrow> emit [Printed (''Could not delete: '' @ e)] w'
                    | Inr fs' \<Rightarrow> w'\<lparr>files := fs'\<rparr>))
              else w')
           (iterdir (files w) TEMP_DIR) w)"

text \<open>
  Lines 200 to 226: the report branch. The document itself (its layout) is not
  modelled: \<^term>\<open>ReportGenerated\<close> records the dataset and the columns that
  \<open>generate_pdf_report\<close> is called with. The texts of the user interface are given
  without their pictographs.
\<close>

definition report_branch :: "env \<Rightarrow> string list \<Rightarrow> string option \<Rightarrow> world \<Rightarrow> world" where
  "report_branch env columns_to_report dataset w =
     (case find_dataset_path (files w) dataset of
        None \<Rightarrow> emit [UiWarning ''Uploaded dataset not found.''] w
      | Some file_path \<Rightarrow>
          (if lower (path_suffix (last file_path)) \<in>
                set [''.csv'', ''.tsv'', ''.xlsx'', ''.xls'', ''.json''] then
             (case read_dataset env file_path of
                Some e \<Rightarrow> emit [UiError (''Failed to load dataset: '' @ e)] w
              | None \<Rightarrow>
                  emit [ReportGenerated file_path columns_to_report,
                        UiSuccess ''PDF report generated successfully!''] w)
           else w))"

definition handle_prompt :: "env \<Rightarrow> string \<Rightarrow> world \<Rightarrow> exn option \<times> world" where
  "handle_prompt env prompt w =
     (if prompt = [] then (None, w)
      else
        (let w1 = cleanup_stale_pngs env w;
             (columns_to_report, dataset) = parse_columns prompt
         in if contains (lower prompt) ''report'' \<and> columns_to_report \<noteq> [] then
              (None, report_branch env columns_to_report dataset w1)
            else query env prompt w1))"

section \<open>Example data\<close>

definition fs_example :: fs where
  "fs_example =
     [([''temp''], Dir 0),
      ([''temp'', ''data2.csv''], File ''a,b'' 5),
      ([''temp'', ''notes.txt''], File ''n'' 6),
      ([''temp'', ''data1.json''], File ''{}'' 7),
      ([''temp'', ''data0.png''], File ''img'' 8)]"

definition env_example :: env where
  "env_example =
     \<lparr>run_id = ''0123456789abcdef0123456789abcdef'',
      clock = 10,
      copy_fault = (\<lambda>src dst. None),
      unlink_fault = (\<lambda>p. None),
      scan_fault = None,
      rmtree_fault = None,
      start_fault = None,
      stop_fault = (\<lambda>s. None),
      load_state_fault = None,
      save_state_result = Inr ''blob'',
      run_stream = (\<lambda>task. ([TextMessage ''user'' task,
                               TextMessage ''code_developer'' ''done TERMINATE'',
                               TaskResult (Some ''Text TERMINATE mentioned'')], None)),
      run_files = (\<lambda>fs. fs),
      read_dataset = (\<lambda>p. None)\<rparr>"

definition world_example :: world where
  "world_example =
     \<lparr>files = fs_example,
      state = \<lparr>last_plot = None, last_plot_filename = None, team_state = None,
               messages = [], last_code_developer_msg = None\<rparr>,
      sandbox = Fresh,
      trace = []\<rparr>"

definition env_silent_agents :: env where
  "env_silent_agents =
     env_example\<lparr>run_stream :=
       (\<lambda>task. (team_run_stream team_config (\<lambda>speaker hist. ''working'') task, None))\<rparr>"

definition env_three_turns :: env where
  "env_three_turns =
     env_example\<lparr>run_stream :=
       (\<lambda>task. ([TextMessage ''code_developer'' ''plan and code'',
                  TextMessage ''code_executor'' ''exit code 0'',
                  TextMessage ''code_developer'' ''the answer. TERMINATE'',
                  TaskResult (Some ''Text TERMINATE mentioned'')], None))\<rparr>"

text \<open>Whether an item of the stream is a text message of a given source.\<close>

definition is_from :: "string \<Rightarrow> stream_item \<Rightarrow> bool" where
  "is_from src i = (case i of TextMessage s c \<Rightarrow> s = src | _ \<Rightarrow> False)"

section \<open>Observations\<close>

text \<open>The events of the sandbox and of the stream, among all events.\<close>

fun is_sandbox_event :: "event \<Rightarrow> bool" where
  "is_sandbox_event StartOk = True"
| "is_sandbox_event (StartFailed e) = True"
| "is_sandbox_event StopOk = True"
| "is_sandbox_event (StopFailed e) = True"
| "is_sandbox_event (RunStream task) = True"
| "is_sandbox_event (Yielded msg) = True"
| "is_sandbox_event (Printed msg) = False"
| "is_sandbox_event (UiWarning msg) = False"
| "is_sandbox_event (UiError msg) = False"
| "is_sandbox_event (UiSuccess msg) = False"
| "is_sandbox_event (ReportGenerated p cols) = False"

abbreviation sandbox_events :: "world \<Rightarrow> event list" where
  "sandbox_events w \<equiv> filter is_sandbox_event (trace w)"

text \<open>The event of an attempt to stop the sandbox in a given state.\<close>

definition stop_event :: "env \<Rightarrow> sandbox_state \<Rightarrow> event" where
  "stop_event env s = (case stop_fault env s of None \<Rightarrow> StopOk | Some e \<Rightarrow> StopFailed e)"

text \<open>The task that \<open>query\<close> builds for a prompt.\<close>

definition query_task :: "env \<Rightarrow> string \<Rightarrow> world \<Rightarrow> string" where
  "query_task env prompt w =
     make_task prompt
       (map path_str
          (dataset_paths (files (seed_run_dir env (TEMP_DIR @ [run_id env]) w))
             (TEMP_DIR @ [run_id env])))"

section \<open>More example data\<close>

definition env_start_fails :: env where
  "env_start_fails = env_example\<lparr>start_fault := Some ''no sandbox''\<rparr>"

definition env_stop_fails :: env where
  "env_stop_fails = env_three_turns\<lparr>stop_fault := (\<lambda>s. Some ''busy'')\<rparr>"

section \<open>The pieces of a promotion\<close>

text \<open>The image that \<open>promote\<close> picks in a run directory, and where it copies it.\<close>

definition latest_png :: "fs \<Rightarrow> path \<Rightarrow> path" where
  "latest_png fs run_dir = last (sort_key (st_mtime fs) (glob_png fs run_dir))"

definition promotion_dest :: "env \<Rightarrow> fs \<Rightarrow> path \<Rightarrow> path" where
  "promotion_dest env fs run_dir = TEMP_DIR @ [run_id env @ ''_'' @ last (latest_png fs run_dir)]"

text \<open>A promotion: plots in the run directory, an older plot in the slot.\<close>

definition world_with_plots :: world where
  "world_with_plots =
     \<lparr>files =
        [([''temp''], Dir 0),
         ([''temp'', ''data1.csv''], File ''a,b'' 5),
         ([''temp'', ''ffff_old.png''], File ''old plot'' 3),
         ([''temp'', ''0123456789abcdef0123456789abcdef''], Dir 9),
         ([''temp'', ''0123456789abcdef0123456789abcdef'', ''data1.csv''], File ''a,b'' 5),
         ([''temp'', ''0123456789abcdef0123456789abcdef'', ''first.png''], File ''plot 1'' 11),
         ([''temp'', ''0123456789abcdef0123456789abcdef'', ''second.png''], File ''plot 2'' 12),
         ([''temp'', ''0123456789abcdef0123456789abcdef'', ''third.png''], File ''plot 3'' 11)],
      state = \<lparr>last_plot = Some [''temp'', ''ffff_old.png''],
               last_plot_filename = Some ''ffff_old.png'', team_state = None,
               messages = [], last_code_developer_msg = None\<rparr>,
      sandbox = Stopped,
      trace = []\<rparr>"

definition env_copy_fails :: env where
  "env_copy_fails = env_example\<lparr>copy_fault := (\<lambda>src dst. Some ''disk full'')\<rparr>"

text \<open>The same slot, and a run directory without any plot.\<close>

definition world_no_plots :: world where
  "world_no_plots =
     world_with_plots\<lparr>files :=
        [([''temp''], Dir 0),
         ([''temp'', ''data1.csv''], File ''a,b'' 5),
         ([''temp'', ''data2.csv''], File ''c,d'' 6),
         ([''temp'', ''ffff_old.png''], File ''old plot'' 3),
         ([''temp'', ''0123456789abcdef0123456789abcdef''], Dir 9),
         ([''temp'', ''0123456789abcdef0123456789abcdef'', ''data1.csv''], File ''a,b'' 5),
         ([''temp'', ''0123456789abcdef0123456789abcdef'', ''data2.csv''], File ''c,d'' 6)]\<rparr>"


section \<open>Properties of prompt parsing\<close>


lemma digit_is_word: "is_digit c \<Longrightarrow> is_word c"
  by (auto simp: is_digit_def is_word_def)

lemma takeWhile_digits:
  assumes "list_all is_digit ds" "boundary_after post"
  shows "takeWhile is_digit (ds @ post) = ds" "dropWhile is_digit (ds @ post) = post"
proof -
  have post: "takeWhile is_digit post = []" "dropWhile is_digit post = post"
    using assms(2) digit_is_word by (cases post; auto simp: boundary_after_def)+
  from assms(1) show "takeWhile is_digit (ds @ post) = ds"
    by (induction ds) (simp_all add: post)
  from assms(1) show "dropWhile is_digit (ds @ post) = post"
    by (induction ds) (simp_all add: post)
qed

lemma match_here_iff:
  "match_here prev s = Some ds \<longleftrightarrow> (\<exists>post. data_token prev s [] ds post)"
proof
  assume m: "match_here prev s = Some ds"
  then have b: "boundary_before prev" and p: "prefix ''data'' s"
    by (auto simp: match_here_def split: if_splits)
  from p obtain rest where s: "s = ''data'' @ rest" by (auto simp: prefix_def)
  from m b p s have ds: "ds = takeWhile is_digit rest" "ds \<noteq> []"
    and a: "boundary_after (dropWhile is_digit rest)"
    by (auto simp: match_here_def Let_def split: if_splits)
  have "rest = ds @ dropWhile is_digit rest" by (simp add: ds)
  moreover have "list_all is_digit ds"
    unfolding ds by (simp add: list_all_iff) (meson set_takeWhileD)
  ultimately have "data_token prev s [] ds (dropWhile is_digit rest)"
    using s b a ds(2) by (simp add: data_token_def)
  then show "\<exists>post. data_token prev s [] ds post" ..
next
  assume "\<exists>post. data_token prev s [] ds post"
  then obtain post where t: "data_token prev s [] ds post" ..
  then have s: "s = ''data'' @ ds @ post" and ne: "ds \<noteq> []" and d: "list_all is_digit ds"
    and b: "boundary_before prev" and a: "boundary_after post"
    by (simp_all add: data_token_def)
  show "match_here prev s = Some ds"
    using ne b a takeWhile_digits[OF d a] by (simp add: match_here_def s)
qed

lemma data_token_Cons:
  "data_token prev (c # cs) (x # pre) ds post \<longleftrightarrow> x = c \<and> data_token (Some c) cs pre ds post"
  by (auto simp: data_token_def)

lemma data_token_Nil_string: "\<not> data_token prev [] pre ds post"
  by (simp add: data_token_def)

lemma search_from_sound:
  "search_from prev s = Some ds \<Longrightarrow>
     \<exists>pre post. data_token prev s pre ds post \<and>
       (\<forall>pre' ds' post'. data_token prev s pre' ds' post' \<longrightarrow> length pre \<le> length pre')"
proof (induction s arbitrary: prev)
  case Nil
  then show ?case by simp
next
  case (Cons c cs)
  show ?case
  proof (cases "match_here prev (c # cs)")
    case (Some ds0)
    with Cons.prems have "ds0 = ds" by simp
    with Some obtain post where "data_token prev (c # cs) [] ds post"
      by (auto simp: match_here_iff)
    then show ?thesis by (intro exI[of _ "[]"] exI[of _ post]) simp
  next
    case None
    with Cons.prems have "search_from (Some c) cs = Some ds" by simp
    from Cons.IH[OF this] obtain pre post where t: "data_token (Some c) cs pre ds post"
      and least: "\<And>pre' ds' post'. data_token (Some c) cs pre' ds' post' \<Longrightarrow> length pre \<le> length pre'"
      by blast
    have "data_token prev (c # cs) (c # pre) ds post"
      using t by (simp add: data_token_Cons)
    moreover have "length (c # pre) \<le> length pre'" if h: "data_token prev (c # cs) pre' ds' post'"
      for pre' ds' post'
    proof (cases pre')
      case Nil
      with h have "match_here prev (c # cs) = Some ds'" by (auto simp: match_here_iff)
      with None show ?thesis by simp
    next
      case (Cons x xs)
      with h have "data_token (Some c) cs xs ds' post'" by (simp add: data_token_Cons)
      from least[OF this] Cons show ?thesis by simp
    qed
    ultimately show ?thesis by blast
  qed
qed

lemma search_from_complete:
  "data_token prev s pre ds post \<Longrightarrow> search_from prev s \<noteq> None"
proof (induction s arbitrary: prev pre)
  case Nil
  then show ?case by (simp add: data_token_Nil_string)
next
  case (Cons c cs)
  show ?case
  proof (cases "match_here prev (c # cs)")
    case (Some a)
    then show ?thesis by simp
  next
    case None
    have "pre \<noteq> []"
    proof
      assume "pre = []"
      with Cons.prems have "match_here prev (c # cs) = Some ds" by (auto simp: match_here_iff)
      with None show False by simp
    qed
    then obtain x xs where "pre = x # xs" by (cases pre) auto
    with Cons.prems have "data_token (Some c) cs xs ds post" by (simp add: data_token_Cons)
    from Cons.IH[OF this] None show ?thesis by simp
  qed
qed

subsection \<open>Claim C8: column and dataset parsing\<close>



lemma no_token_iff:
  "search_from None s = None \<longleftrightarrow> \<not> (\<exists>pre ds post. data_token None s pre ds post)"
proof (cases "search_from None s")
  case None
  then show ?thesis using search_from_complete by blast
next
  case (Some ds)
  from search_from_sound[OF this] Some show ?thesis by auto
qed

lemma parse_columns_dataset:
  "snd (parse_columns prompt) = map_option (\<lambda>ds. ''data'' @ ds) (search_from None (lower prompt))"
  by (simp add: parse_columns_def Let_def re_search_dataset_def split: option.splits)

lemma sibling_le:
  fixes p q :: "'a::linorder list"
  assumes "p \<noteq> []" "q \<noteq> []" "butlast p = butlast q" "p \<le> q"
  shows "last p \<le> last q"
proof -
  have p: "p = butlast p @ [last p]" and q: "q = butlast p @ [last q]"
    using assms by (simp_all add: assms(3)[symmetric]) (metis append_butlast_last_id assms(2,3))
  have "butlast p @ [last p] \<le> butlast p @ [last q]"
    using assms(4) p q by metis
  then have "(butlast p @ [last p], butlast p @ [last q]) \<in> lexord {(u, v). u < v} \<or>
             last p = last q"
    by (auto simp: list_le_def list_less_def)
  then have "([last p], [last q]) \<in> lexord {(u, v). u < v} \<or> last p = last q"
    by (auto simp: lexord_same_pref_iff)
  then show ?thesis by auto
qed

lemma iterdir_nonempty: "p \<in> set (iterdir fs d) \<Longrightarrow> p \<noteq> [] \<and> butlast p = d"
  by (simp add: iterdir_def)

lemma find_sorted_least:
  fixes xs :: "'a::linorder list"
  assumes "List.find P (sort xs) = Some x"
  shows "x \<in> set xs \<and> P x \<and> (\<forall>y\<in>set xs. P y \<longrightarrow> x \<le> y)"
proof -
  from assms obtain i where i: "i < length (sort xs)" "P (sort xs ! i)" "x = sort xs ! i"
    and least: "\<forall>j<i. \<not> P (sort xs ! j)"
    by (auto simp: find_Some_iff)
  have "x \<in> set xs" using i by (metis nth_mem set_sort)
  moreover have "x \<le> y" if "y \<in> set xs" "P y" for y
  proof -
    from that obtain j where j: "j < length (sort xs)" "sort xs ! j = y"
      by (metis in_set_conv_nth set_sort)
    with least that have "\<not> j < i" by auto
    then have "i \<le> j" by simp
    then show ?thesis using sorted_nth_mono[of "sort xs" i j] j i by simp
  qed
  ultimately show ?thesis using i by blast
qed

subsection \<open>Claim C9: the default dataset\<close>

text \<open>
  C9. When the lower-cased prompt has no token \<open>data<N>\<close>, \<open>parse_columns\<close> returns
  no dataset, and \<open>find_dataset_path\<close> then returns nothing exactly when the workspace
  has no file whose name starts with \<open>data\<close> and whose extension is a recognized one;
  otherwise it returns such a file, and its name is the least, in lexicographic order,
  among the names of these files.
\<close>

theorem find_dataset_path_default:
  assumes "\<not> (\<exists>pre ds post. data_token None (lower prompt) pre ds post)"
  shows "snd (parse_columns prompt) = None
    \<and> (find_dataset_path fs (snd (parse_columns prompt)) = None \<longleftrightarrow>
         \<not> (\<exists>p. p \<in> set (iterdir fs TEMP_DIR) \<and> is_dataset_file fs p))
    \<and> (\<forall>p. find_dataset_path fs (snd (parse_columns prompt)) = Some p \<longrightarrow>
         p \<in> set (iterdir fs TEMP_DIR) \<and> is_dataset_file fs p \<and>
         (\<forall>q. q \<in> set (iterdir fs TEMP_DIR) \<and> is_dataset_file fs q \<longrightarrow> last p \<le> last q))"
proof -
  have none: "snd (parse_columns prompt) = None"
    using assms no_token_iff[of "lower prompt"] by (simp add: parse_columns_dataset)
  have f: "find_dataset_path fs (snd (parse_columns prompt)) =
           List.find (is_dataset_file fs) (sort (iterdir fs TEMP_DIR))"
    by (simp add: none find_dataset_path_def)
  have a: "find_dataset_path fs (snd (parse_columns prompt)) = None \<longleftrightarrow>
           \<not> (\<exists>p. p \<in> set (iterdir fs TEMP_DIR) \<and> is_dataset_file fs p)"
    by (simp add: f find_None_iff)
  have b: "p \<in> set (iterdir fs TEMP_DIR) \<and> is_dataset_file fs p \<and>
         (\<forall>q. q \<in> set (iterdir fs TEMP_DIR) \<and> is_dataset_file fs q \<longrightarrow> last p \<le> last q)"
    if "find_dataset_path fs (snd (parse_columns prompt)) = Some p" for p
  proof -
    from that f have "List.find (is_dataset_file fs) (sort (iterdir fs TEMP_DIR)) = Some p"
      by simp
    from find_sorted_least[OF this]
    have p: "p \<in> set (iterdir fs TEMP_DIR)" "is_dataset_file fs p"
      and least: "\<And>q. q \<in> set (iterdir fs TEMP_DIR) \<Longrightarrow> is_dataset_file fs q \<Longrightarrow> p \<le> q"
      by auto
    have "last p \<le> last q" if q: "q \<in> set (iterdir fs TEMP_DIR)" "is_dataset_file fs q" for q
      using sibling_le[of p q] iterdir_nonempty[OF p(1)] iterdir_nonempty[OF q(1)] least[OF q]
      by simp
    with p show ?thesis by blast
  qed
  from none a b show ?thesis by blast
qed

theorem find_dataset_path_default_witness:
  "find_dataset_path fs_example (snd (parse_columns ''list the columns of mydata2'')) =
     Some [''temp'', ''data1.json'']
   \<and> is_dataset_file fs_example [''temp'', ''data1.json'']
   \<and> ''data1.json'' \<le> ''data2.csv''"
proof -
  have nt: "\<not> (\<exists>pre ds post. data_token None (lower ''list the columns of mydata2'') pre ds post)"
    unfolding no_token_iff[symmetric] by code_simp
  have r: "find_dataset_path fs_example (snd (parse_columns ''list the columns of mydata2'')) =
     Some [''temp'', ''data1.json'']"
    by code_simp
  have q: "[''temp'', ''data2.csv''] \<in> set (iterdir fs_example TEMP_DIR) \<and>
           is_dataset_file fs_example [''temp'', ''data2.csv'']"
    by code_simp
  from find_dataset_path_default[OF nt, of fs_example] r q
  show ?thesis by auto
qed

section \<open>Properties of dataset resolution and routing\<close>

lemma fold_invariant:
  assumes "\<And>x s. x \<in> set xs \<Longrightarrow> P s \<Longrightarrow> P (f x s)" "P s"
  shows "P (fold f xs s)"
  using assms by (induction xs arbitrary: s) auto

lemma emit_simps [simp]:
  "files (emit es w) = files w" "state (emit es w) = state w"
  "sandbox (emit es w) = sandbox w" "trace (emit es w) = trace w @ es"
  by (simp_all add: emit_def)

lemma unlink_exists:
  "unlink fault fs p = Inr fs' \<Longrightarrow> path_exists fs' q \<Longrightarrow> path_exists fs q"
  by (auto simp: unlink_def path_exists_def delete_conv' split: option.splits node.splits if_splits)

lemma cleanup_stale_pngs_effect:
  "state (cleanup_stale_pngs env w) = state w \<and>
   (\<forall>q. path_exists (files (cleanup_stale_pngs env w)) q \<longrightarrow> path_exists (files w) q)"
  unfolding cleanup_stale_pngs_def Let_def
  by (rule fold_invariant)
     (auto split: sum.splits dest: unlink_exists)

lemma find_dataset_path_named_missing:
  assumes "d \<noteq> []" "\<not> (\<exists>ext. ext \<in> set DATA_EXTS \<and> path_exists fs (TEMP_DIR @ [d @ ext]))"
  shows "find_dataset_path fs (Some d) = None"
  using assms by (auto simp: find_dataset_path_def find_None_iff)

lemma parse_columns_dataset_nonempty: "snd (parse_columns prompt) = Some d \<Longrightarrow> d \<noteq> [] \<and> prompt \<noteq> []"
  by (auto simp: parse_columns_dataset lower_def)

subsection \<open>Claim C10: a named dataset that does not exist\<close>

text \<open>
  C10. When the prompt names a dataset \<open>data<N>\<close> and the workspace has no
  \<open>data<N>\<close> with a recognized extension, \<open>find_dataset_path\<close> returns nothing, whatever
  other datasets exist; the report branch then only shows the warning: no document is
  generated, and the files and the session state (the slot included) stay as they are.
  For a prompt that asks for a report, the whole handling of the prompt is the removal of
  stale images that precedes every routing, and this warning.
\<close>

theorem named_dataset_missing_no_fallback:
  assumes "snd (parse_columns prompt) = Some d"
    and "\<not> (\<exists>ext. ext \<in> set DATA_EXTS \<and> path_exists (files w) (TEMP_DIR @ [d @ ext]))"
  shows "find_dataset_path (files w) (snd (parse_columns prompt)) = None
    \<and> report_branch env columns (snd (parse_columns prompt)) w =
        emit [UiWarning ''Uploaded dataset not found.''] w
    \<and> files (report_branch env columns (snd (parse_columns prompt)) w) = files w
    \<and> state (report_branch env columns (snd (parse_columns prompt)) w) = state w
    \<and> (contains (lower prompt) ''report'' \<and> fst (parse_columns prompt) \<noteq> [] \<longrightarrow>
         handle_prompt env prompt w =
           (None, emit [UiWarning ''Uploaded dataset not found.''] (cleanup_stale_pngs env w))
         \<and> state (snd (handle_prompt env prompt w)) = state w)"
proof -
  from assms(1) have ne: "d \<noteq> []" "prompt \<noteq> []"
    using parse_columns_dataset_nonempty by blast+
  have none: "find_dataset_path (files w) (snd (parse_columns prompt)) = None"
    using find_dataset_path_named_missing[OF ne(1) assms(2)] assms(1) by simp
  then have rb: "report_branch env columns (snd (parse_columns prompt)) w =
        emit [UiWarning ''Uploaded dataset not found.''] w"
    by (simp add: report_branch_def)
  let ?w1 = "cleanup_stale_pngs env w"
  have "\<not> (\<exists>ext. ext \<in> set DATA_EXTS \<and> path_exists (files ?w1) (TEMP_DIR @ [d @ ext]))"
    using assms(2) cleanup_stale_pngs_effect[of env w] by blast
  from find_dataset_path_named_missing[OF ne(1) this]
  have none1: "find_dataset_path (files ?w1) (Some d) = None" .
  have hp: "handle_prompt env prompt w =
           (None, emit [UiWarning ''Uploaded dataset not found.''] ?w1)"
    if "contains (lower prompt) ''report''" "fst (parse_columns prompt) \<noteq> []"
  proof -
    obtain c x where pc: "parse_columns prompt = (c, x)" by (cases "parse_columns prompt")
    with that assms(1) have "c \<noteq> []" "x = Some d" by simp_all
    with that ne(2) none1 pc show ?thesis
      by (simp add: handle_prompt_def Let_def report_branch_def)
  qed
  have "state (emit [UiWarning ''Uploaded dataset not found.''] ?w1) = state w"
    using cleanup_stale_pngs_effect[of env w] by simp
  with none rb hp show ?thesis by simp
qed

theorem named_dataset_missing_no_fallback_witness:
  "trace (snd (handle_prompt env_example ''report for temp one from data3'' world_example)) =
     [UiWarning ''Uploaded dataset not found.'']
   \<and> find_dataset_path (files world_example) None = Some [''temp'', ''data1.json'']"
proof -
  have a: "snd (parse_columns ''report for temp one from data3'') = Some ''data3''"
    by code_simp
  have b: "\<not> (\<exists>ext. ext \<in> set DATA_EXTS \<and>
              path_exists (files world_example) (TEMP_DIR @ [''data3'' @ ext]))"
    by (simp add: DATA_EXTS_def path_exists_def world_example_def fs_example_def TEMP_DIR_def)
  have c: "contains (lower ''report for temp one from data3'') ''report'' \<and>
           fst (parse_columns ''report for temp one from data3'') \<noteq> []"
    by code_simp
  have d: "trace (cleanup_stale_pngs env_example world_example) = []"
    by code_simp
  have e: "find_dataset_path (files world_example) None = Some [''temp'', ''data1.json'']"
    by code_simp
  from named_dataset_missing_no_fallback[OF a b, of env_example] c d e
  show ?thesis by simp
qed

section \<open>Properties of the trend\<close>



subsection \<open>Claim C5: trend strength and direction\<close>




section \<open>Properties of the orchestration loop\<close>

lemma map_filter_append: "List.map_filter f (xs @ ys) = List.map_filter f xs @ List.map_filter f ys"
  by (simp add: List.map_filter_def)

lemma map_filter_texts:
  "\<forall>i\<in>set xs. \<exists>src c. i = TextMessage src c \<Longrightarrow>
     List.map_filter render xs = map (\<lambda>i. source i @ '': '' @ text_content i) xs"
  by (induction xs) (auto simp: List.map_filter_def)

lemma orchestrate_items:
  "fst (fst (orchestrate env task w)) =
     (case start_fault env of
        Some e \<Rightarrow> []
      | None \<Rightarrow> List.map_filter render (fst (run_stream env task)))"
  by (simp add: orchestrate_def Let_def split: option.splits prod.splits)

lemma orchestrate_error:
  "snd (fst (orchestrate env task w)) =
     (case start_fault env of
        Some e \<Rightarrow> Some e
      | None \<Rightarrow> snd (run_stream env task))"
  by (simp add: orchestrate_def Let_def split: option.splits prod.splits)

lemma render_in_set:
  "m \<in> set (List.map_filter render items) \<Longrightarrow>
     (\<exists>src c. TextMessage src c \<in> set items \<and> m = src @ '': '' @ c) \<or>
     (\<exists>r. TaskResult r \<in> set items \<and>
        m = ''Stopping reason: '' @ (case r of None \<Rightarrow> ''None'' | Some s \<Rightarrow> s))"
proof (induction items)
  case Nil
  then show ?case by (simp add: List.map_filter_def)
next
  case (Cons i items)
  then show ?case
    by (cases i) (auto simp: List.map_filter_simps)
qed

subsection \<open>The turn loop\<close>

lemma turns_shape:
  "\<exists>msgs r. turns dev exe phrase ag n s hist = msgs @ [TaskResult (Some r)] \<and>
     length msgs \<le> n \<and>
     (\<forall>i\<in>set msgs. \<exists>c. i = TextMessage dev c \<or> i = TextMessage exe c) \<and>
     (r = ''phrase'' \<or> r = ''max-turns-exceeded'') \<and>
     (r = ''max-turns-exceeded'' \<longrightarrow> length msgs = n) \<and>
     (r = ''phrase'' \<longrightarrow> msgs \<noteq> [] \<and> (\<exists>c. last msgs = TextMessage dev c \<and> contains c phrase))"
proof (induction n arbitrary: s hist)
  case 0
  show ?case by (intro exI[of _ "[]"] exI[of _ "''max-turns-exceeded''"]) simp
next
  case (Suc n)
  show ?case
  proof (cases s)
    case AWAITING_DEVELOPER
    let ?m = "ag dev hist"
    show ?thesis
    proof (cases "contains ?m phrase")
      case True
      then have "turns dev exe phrase ag (Suc n) s hist =
                 [TextMessage dev ?m] @ [TaskResult (Some ''phrase'')]"
        using AWAITING_DEVELOPER by (simp add: Let_def)
      with True show ?thesis
        by (intro exI[of _ "[TextMessage dev ?m]"] exI[of _ "''phrase''"]) auto
    next
      case False
      from Suc.IH[of AWAITING_EXECUTOR "hist @ [(dev, ?m)]"]
      obtain msgs r where
        t: "turns dev exe phrase ag n AWAITING_EXECUTOR (hist @ [(dev, ?m)]) =
              msgs @ [TaskResult (Some r)]"
        and p: "length msgs \<le> n"
          "\<forall>i\<in>set msgs. \<exists>c. i = TextMessage dev c \<or> i = TextMessage exe c"
          "r = ''phrase'' \<or> r = ''max-turns-exceeded''"
          "r = ''max-turns-exceeded'' \<longrightarrow> length msgs = n"
          "r = ''phrase'' \<longrightarrow> msgs \<noteq> [] \<and> (\<exists>c. last msgs = TextMessage dev c \<and> contains c phrase)"
        by blast
      have "turns dev exe phrase ag (Suc n) s hist =
            (TextMessage dev ?m # msgs) @ [TaskResult (Some r)]"
        using AWAITING_DEVELOPER False t by (simp add: Let_def)
      with p show ?thesis
        by (intro exI[of _ "TextMessage dev ?m # msgs"] exI[of _ r]) auto
    qed
  next
    case AWAITING_EXECUTOR
    let ?m = "ag exe hist"
    from Suc.IH[of AWAITING_DEVELOPER "hist @ [(exe, ?m)]"]
    obtain msgs r where
      t: "turns dev exe phrase ag n AWAITING_DEVELOPER (hist @ [(exe, ?m)]) =
            msgs @ [TaskResult (Some r)]"
      and p: "length msgs \<le> n"
        "\<forall>i\<in>set msgs. \<exists>c. i = TextMessage dev c \<or> i = TextMessage exe c"
        "r = ''phrase'' \<or> r = ''max-turns-exceeded''"
        "r = ''max-turns-exceeded'' \<longrightarrow> length msgs = n"
        "r = ''phrase'' \<longrightarrow> msgs \<noteq> [] \<and> (\<exists>c. last msgs = TextMessage dev c \<and> contains c phrase)"
      by blast
    have "turns dev exe phrase ag (Suc n) s hist =
          (TextMessage exe ?m # msgs) @ [TaskResult (Some r)]"
      using AWAITING_EXECUTOR t by (simp add: Let_def)
    with p show ?thesis
      by (intro exI[of _ "TextMessage exe ?m # msgs"] exI[of _ r]) auto
  qed
qed

lemma turns_counts:
  assumes "dev \<noteq> exe"
  shows "2 * length (filter (is_from dev) (turns dev exe phrase ag n s hist))
           \<le> n + (if s = AWAITING_DEVELOPER then 1 else 0) \<and>
         2 * length (filter (is_from exe) (turns dev exe phrase ag n s hist))
           \<le> n + (if s = AWAITING_EXECUTOR then 1 else 0)"
proof (induction n arbitrary: s hist)
  case 0
  show ?case by (simp add: is_from_def)
next
  case (Suc n)
  show ?case
  proof (cases s)
    case AWAITING_DEVELOPER
    with Suc.IH[of AWAITING_EXECUTOR "hist @ [(dev, ag dev hist)]"] assms
    show ?thesis by (auto simp: Let_def is_from_def)
  next
    case AWAITING_EXECUTOR
    with Suc.IH[of AWAITING_DEVELOPER "hist @ [(exe, ag exe hist)]"] assms
    show ?thesis by (auto simp: Let_def is_from_def)
  qed
qed

lemma turns_stop_at_phrase:
  assumes "dev \<noteq> exe"
  shows "turns dev exe phrase ag n s hist = pre @ TextMessage dev c # post \<Longrightarrow>
         contains c phrase \<Longrightarrow> post = [TaskResult (Some ''phrase'')]"
proof (induction n arbitrary: s hist pre)
  case 0
  then show ?case by (cases pre) auto
next
  case (Suc n)
  show ?case
  proof (cases s)
    case AWAITING_DEVELOPER
    let ?m = "ag dev hist"
    let ?rest = "if contains ?m phrase then [TaskResult (Some ''phrase'')]
                 else turns dev exe phrase ag n AWAITING_EXECUTOR (hist @ [(dev, ?m)])"
    have t: "TextMessage dev ?m # ?rest = pre @ TextMessage dev c # post"
      using Suc.prems(1) AWAITING_DEVELOPER by (simp add: Let_def)
    show ?thesis
    proof (cases pre)
      case Nil
      with t Suc.prems(2) show ?thesis by auto
    next
      case (Cons x pre')
      with t have r: "?rest = pre' @ TextMessage dev c # post" by simp
      show ?thesis
      proof (cases "contains ?m phrase")
        case True
        with r have "[TaskResult (Some ''phrase'')] = pre' @ TextMessage dev c # post" by simp
        then show ?thesis by (cases pre') auto
      next
        case False
        with r have "turns dev exe phrase ag n AWAITING_EXECUTOR (hist @ [(dev, ?m)]) =
                     pre' @ TextMessage dev c # post" by simp
        from Suc.IH[OF this Suc.prems(2)] show ?thesis .
      qed
    qed
  next
    case AWAITING_EXECUTOR
    let ?m = "ag exe hist"
    have t: "TextMessage exe ?m # turns dev exe phrase ag n AWAITING_DEVELOPER (hist @ [(exe, ?m)]) =
             pre @ TextMessage dev c # post"
      using Suc.prems(1) AWAITING_EXECUTOR by (simp add: Let_def)
    show ?thesis
    proof (cases pre)
      case Nil
      with t assms show ?thesis by auto
    next
      case (Cons x pre')
      with t have "turns dev exe phrase ag n AWAITING_DEVELOPER (hist @ [(exe, ?m)]) =
                   pre' @ TextMessage dev c # post" by simp
      from Suc.IH[OF this Suc.prems(2)] show ?thesis .
    qed
  qed
qed

lemma team_run_stream_config:
  "team_run_stream team_config ag task =
     turns ''code_developer'' ''code_executor'' ''TERMINATE'' ag 20 AWAITING_DEVELOPER
       [(''user'', task)]"
  by (simp add: team_run_stream_def team_config_def)

subsection \<open>Claim C1: the loop is bounded\<close>

text \<open>
  C1. With the team as \<open>team_config\<close> builds it (Developer first, the phrase
  \<open>TERMINATE\<close>, at most 20 turns) and whatever the agents answer, the stream of the team
  is a list of at most 20 turn messages followed by one stop reason, and \<open>orchestrate\<close>
  yields it item by item and returns. At most 10 of the turns are the Developer's and at
  most 10 the Executor's. The stop reason is the phrase, and then the last turn is a
  Developer message that contains \<open>TERMINATE\<close>, or it is \<open>max-turns-exceeded\<close>, and
  then there were exactly 20 turns; a Developer message that contains the phrase is always
  the last turn.
\<close>

theorem orchestration_loop_bounded:
  assumes "start_fault env = None"
    and "run_stream env task = (team_run_stream team_config ag task, None)"
  shows "\<exists>msgs reason.
     team_run_stream team_config ag task = msgs @ [TaskResult (Some reason)]
     \<and> fst (orchestrate env task w) =
         (map (\<lambda>i. source i @ '': '' @ text_content i) msgs @ [''Stopping reason: '' @ reason],
          None)
     \<and> length msgs \<le> 20
     \<and> length (filter (is_from ''code_developer'') msgs) \<le> 10
     \<and> length (filter (is_from ''code_executor'') msgs) \<le> 10
     \<and> (\<forall>i. i \<in> set msgs \<longrightarrow>
          (\<exists>c. i = TextMessage ''code_developer'' c \<or> i = TextMessage ''code_executor'' c))
     \<and> (reason = ''phrase'' \<or> reason = ''max-turns-exceeded'')
     \<and> (reason = ''max-turns-exceeded'' \<longrightarrow> length msgs = 20)
     \<and> (reason = ''phrase'' \<longrightarrow>
          msgs \<noteq> [] \<and> (\<exists>c. last msgs = TextMessage ''code_developer'' c \<and> contains c ''TERMINATE''))
     \<and> (\<forall>pre c post. msgs = pre @ TextMessage ''code_developer'' c # post \<and>
          contains c ''TERMINATE'' \<longrightarrow> post = [] \<and> reason = ''phrase'')"
proof -
  let ?t = "turns ''code_developer'' ''code_executor'' ''TERMINATE'' ag 20 AWAITING_DEVELOPER
              [(''user'', task)]"
  have ne: "''code_developer'' \<noteq> ''code_executor''" by simp
  from turns_shape[of "''code_developer''" "''code_executor''" "''TERMINATE''" ag 20
      AWAITING_DEVELOPER "[(''user'', task)]"]
  obtain msgs r where t: "?t = msgs @ [TaskResult (Some r)]"
    and len: "length msgs \<le> 20"
    and src: "\<forall>i\<in>set msgs. \<exists>c. i = TextMessage ''code_developer'' c \<or>
                                 i = TextMessage ''code_executor'' c"
    and r: "r = ''phrase'' \<or> r = ''max-turns-exceeded''"
    and rmax: "r = ''max-turns-exceeded'' \<longrightarrow> length msgs = 20"
    and rphrase: "r = ''phrase'' \<longrightarrow> msgs \<noteq> [] \<and>
          (\<exists>c. last msgs = TextMessage ''code_developer'' c \<and> contains c ''TERMINATE'')"
    by blast
  have stream: "team_run_stream team_config ag task = msgs @ [TaskResult (Some r)]"
    using t by (simp add: team_run_stream_config)
  have texts: "\<forall>i\<in>set msgs. \<exists>s c. i = TextMessage s c" using src by blast
  have items: "fst (fst (orchestrate env task w)) =
     map (\<lambda>i. source i @ '': '' @ text_content i) msgs @ [''Stopping reason: '' @ r]"
    using assms stream map_filter_texts[OF texts]
    by (simp add: orchestrate_items map_filter_append List.map_filter_simps)
  have err: "snd (fst (orchestrate env task w)) = None"
    using assms by (simp add: orchestrate_error)
  have yields: "fst (orchestrate env task w) =
     (map (\<lambda>i. source i @ '': '' @ text_content i) msgs @ [''Stopping reason: '' @ r], None)"
    using items err by (simp add: prod_eq_iff)
  from turns_counts[OF ne, of "''TERMINATE''" ag 20 AWAITING_DEVELOPER "[(''user'', task)]"]
  have "2 * length (filter (is_from ''code_developer'') ?t) \<le> 21"
    and "2 * length (filter (is_from ''code_executor'') ?t) \<le> 20"
    by simp_all
  then have counts: "length (filter (is_from ''code_developer'') msgs) \<le> 10"
    "length (filter (is_from ''code_executor'') msgs) \<le> 10"
    unfolding t by (simp_all add: is_from_def)
  have stop: "post = [] \<and> r = ''phrase''"
    if "msgs = pre @ TextMessage ''code_developer'' c # post" "contains c ''TERMINATE''"
    for pre c post
  proof -
    from that(1) t have "?t = pre @ TextMessage ''code_developer'' c # (post @ [TaskResult (Some r)])"
      by simp
    from turns_stop_at_phrase[OF ne this that(2)] show ?thesis by simp
  qed
  from stream yields len counts src r rmax rphrase stop show ?thesis
    by (intro exI[of _ msgs] exI[of _ r]) blast
qed

theorem orchestration_loop_bounded_witness:
  "(\<exists>msgs reason.
      fst (orchestrate env_silent_agents ''mean of temp one'' world_example) =
        (map (\<lambda>i. source i @ '': '' @ text_content i) msgs @ [''Stopping reason: '' @ reason],
         None) \<and>
      length msgs \<le> 20)
   \<and> length (fst (fst (orchestrate env_silent_agents ''mean of temp one'' world_example))) = 21
   \<and> last (fst (fst (orchestrate env_silent_agents ''mean of temp one'' world_example))) =
       ''Stopping reason: max-turns-exceeded''"
proof -
  have a: "start_fault env_silent_agents = None"
    and b: "run_stream env_silent_agents ''mean of temp one'' =
         (team_run_stream team_config (\<lambda>speaker hist. ''working'') ''mean of temp one'', None)"
    by (simp_all add: env_silent_agents_def env_example_def)
  have c: "length (fst (fst (orchestrate env_silent_agents ''mean of temp one'' world_example))) = 21"
    by code_simp
  have d: "last (fst (fst (orchestrate env_silent_agents ''mean of temp one'' world_example))) =
       ''Stopping reason: max-turns-exceeded''"
    by code_simp
  from orchestration_loop_bounded[OF a b, of world_example] c d
  show ?thesis by blast
qed

subsection \<open>Claim C6: the items of the stream\<close>



section \<open>Properties of a query\<close>

lemma seed_run_dir_effect:
  "state (seed_run_dir env d w) = state w \<and> sandbox (seed_run_dir env d w) = sandbox w \<and>
   sandbox_events (seed_run_dir env d w) = sandbox_events w"
  unfolding seed_run_dir_def Let_def
  by (rule fold_invariant) (auto split: sum.splits)

lemma load_team_state_effect:
  "files (load_team_state env w) = files w \<and> state (load_team_state env w) = state w \<and>
   sandbox (load_team_state env w) = sandbox w \<and>
   sandbox_events (load_team_state env w) = sandbox_events w"
  by (simp add: load_team_state_def split: option.splits)

lemma save_team_state_effect:
  "files (save_team_state env w) = files w \<and>
   last_plot (state (save_team_state env w)) = last_plot (state w) \<and>
   last_plot_filename (state (save_team_state env w)) = last_plot_filename (state w) \<and>
   sandbox (save_team_state env w) = sandbox w \<and>
   sandbox_events (save_team_state env w) = sandbox_events w"
  by (simp add: save_team_state_def split: sum.splits)

lemma promote_sandbox:
  "sandbox (promote env d w) = sandbox w \<and> sandbox_events (promote env d w) = sandbox_events w"
  by (simp add: promote_def Let_def split: option.splits sum.splits)

lemma destroy_run_dir_effect:
  "state (destroy_run_dir env d w) = state w \<and> sandbox (destroy_run_dir env d w) = sandbox w \<and>
   sandbox_events (destroy_run_dir env d w) = sandbox_events w"
  by (simp add: destroy_run_dir_def split: option.splits prod.splits)

lemma stop_quietly_effect:
  "files (stop_quietly env w) = files w \<and> state (stop_quietly env w) = state w \<and>
   trace (stop_quietly env w) = trace w @ [stop_event env (sandbox w)]"
  by (simp add: stop_quietly_def sandbox_stop_def stop_event_def split: option.splits)

lemma publish_effect:
  "files (publish msgs w) = files w \<and> trace (publish msgs w) = trace w \<and>
   sandbox (publish msgs w) = sandbox w \<and>
   last_plot (state (publish msgs w)) = last_plot (state w) \<and>
   last_plot_filename (state (publish msgs w)) = last_plot_filename (state w)"
  by (simp add: publish_def Let_def)

lemma filter_yields:
  "filter is_sandbox_event (concat (map (\<lambda>msg. [Printed msg, Yielded msg]) msgs)) =
     map Yielded msgs"
  by (induction msgs) simp_all

lemma orchestrate_trace:
  "trace (snd (orchestrate env task w)) = trace w @
     (case start_fault env of
        Some e \<Rightarrow> [StartFailed e, Printed (''Executor failed to start: '' @ e)]
      | None \<Rightarrow>
          [StartOk, RunStream task] @
          concat (map (\<lambda>msg. [Printed msg, Yielded msg])
                    (List.map_filter render (fst (run_stream env task)))) @
          (case stop_fault env Running of
             None \<Rightarrow> [StopOk]
           | Some e \<Rightarrow> [StopFailed e, Printed (''Failed to stop executor cleanly: '' @ e)]))"
  by (simp add: orchestrate_def Let_def sandbox_stop_def split: option.splits prod.splits)

lemma orchestrate_sandbox:
  "sandbox (snd (orchestrate env task w)) =
     (case start_fault env of
        Some e \<Rightarrow> sandbox w
      | None \<Rightarrow> if stop_fault env Running = None then Stopped else Running)"
  by (simp add: orchestrate_def Let_def sandbox_stop_def split: option.splits prod.splits)

lemma orchestrate_sandbox_events:
  "sandbox_events (snd (orchestrate env task w)) = sandbox_events w @
     (case start_fault env of
        Some e \<Rightarrow> [StartFailed e]
      | None \<Rightarrow>
          [StartOk, RunStream task] @
          map Yielded (List.map_filter render (fst (run_stream env task))) @
          [stop_event env Running])"
  by (simp add: orchestrate_trace filter_yields stop_event_def split: option.splits)

lemma finally_block_sandbox_events:
  "sandbox_events (finally_block env d w) = sandbox_events w @ [stop_event env (sandbox w)]"
  by (simp add: finally_block_def destroy_run_dir_effect stop_quietly_effect promote_sandbox
      save_team_state_effect stop_event_def split: option.splits)

lemma query_unfold:
  "query env prompt w =
     (let w2 = load_team_state env ((seed_run_dir env (TEMP_DIR @ [run_id env]) w)\<lparr>sandbox := Fresh\<rparr>);
          r = orchestrate env (query_task env prompt w) w2;
          w4 = finally_block env (TEMP_DIR @ [run_id env]) (snd r)
      in case snd (fst r) of
           Some e \<Rightarrow> (Some e, w4)
         | None \<Rightarrow> (None, publish (consume [] (fst (fst r))) w4))"
proof -
  have f: "files (load_team_state env ((seed_run_dir env (TEMP_DIR @ [run_id env]) w)\<lparr>sandbox := Fresh\<rparr>)) =
           files (seed_run_dir env (TEMP_DIR @ [run_id env]) w)"
    by (simp add: load_team_state_effect)
  show ?thesis
    unfolding query_def Let_def query_task_def f case_prod_beta by (simp split: option.splits)
qed

lemma query_error:
  "fst (query env prompt w) =
     (case start_fault env of
        Some e \<Rightarrow> Some e
      | None \<Rightarrow> snd (run_stream env (query_task env prompt w)))"
  by (simp add: query_unfold Let_def orchestrate_error split: option.splits)

lemma query_sandbox_events:
  "sandbox_events (snd (query env prompt w)) = sandbox_events w @
     (case start_fault env of
        Some e \<Rightarrow> [StartFailed e, stop_event env Fresh]
      | None \<Rightarrow>
          [StartOk, RunStream (query_task env prompt w)] @
          map Yielded (List.map_filter render (fst (run_stream env (query_task env prompt w)))) @
          [stop_event env Running,
           stop_event env (if stop_fault env Running = None then Stopped else Running)])"
proof -
  let ?w2 = "load_team_state env ((seed_run_dir env (TEMP_DIR @ [run_id env]) w)\<lparr>sandbox := Fresh\<rparr>)"
  let ?r = "orchestrate env (query_task env prompt w) ?w2"
  let ?w4 = "finally_block env (TEMP_DIR @ [run_id env]) (snd ?r)"
  have w2: "sandbox_events ?w2 = sandbox_events w" "sandbox ?w2 = Fresh"
    by (simp_all add: load_team_state_effect seed_run_dir_effect)
  have "sandbox_events (snd (query env prompt w)) = sandbox_events ?w4"
    by (simp add: query_unfold Let_def publish_effect split: option.splits)
  also have "\<dots> = sandbox_events (snd ?r) @ [stop_event env (sandbox (snd ?r))]"
    by (rule finally_block_sandbox_events)
  finally show ?thesis
    by (simp add: orchestrate_sandbox_events orchestrate_sandbox w2 split: option.splits)
qed

subsection \<open>Claim C3: the sandbox is started and stopped\<close>

text \<open>
  C3. \<open>orchestrate\<close> first starts the sandbox. If the start fails, it logs the failure
  and raises it: nothing is run or yielded, and \<open>query\<close> ends with this exception after
  its own attempt to stop the sandbox. If the start succeeds, the stream is run and its
  items are yielded, then \<open>orchestrate\<close> attempts the stop, whether the stream ended
  with an exception or not, and \<open>query\<close> attempts it once more. A failure of a stop is
  logged or ignored and changes nothing else: the exception \<open>orchestrate\<close> and
  \<open>query\<close> end with is the one of the start, or else the one of the stream, if any.
\<close>

theorem sandbox_lifecycle:
  "trace (snd (orchestrate env task w)) = trace w @
     (case start_fault env of
        Some e \<Rightarrow> [StartFailed e, Printed (''Executor failed to start: '' @ e)]
      | None \<Rightarrow>
          [StartOk, RunStream task] @
          concat (map (\<lambda>msg. [Printed msg, Yielded msg])
                    (List.map_filter render (fst (run_stream env task)))) @
          (case stop_fault env Running of
             None \<Rightarrow> [StopOk]
           | Some e \<Rightarrow> [StopFailed e, Printed (''Failed to stop executor cleanly: '' @ e)]))
   \<and> snd (fst (orchestrate env task w)) =
       (case start_fault env of
          Some e \<Rightarrow> Some e
        | None \<Rightarrow> snd (run_stream env task))
   \<and> sandbox_events (snd (query env prompt w)) = sandbox_events w @
       (case start_fault env of
          Some e \<Rightarrow> [StartFailed e, stop_event env Fresh]
        | None \<Rightarrow>
            [StartOk, RunStream (query_task env prompt w)] @
            map Yielded (List.map_filter render (fst (run_stream env (query_task env prompt w)))) @
            [stop_event env Running,
             stop_event env (if stop_fault env Running = None then Stopped else Running)])
   \<and> fst (query env prompt w) =
       (case start_fault env of
          Some e \<Rightarrow> Some e
        | None \<Rightarrow> snd (run_stream env (query_task env prompt w)))"
  using orchestrate_trace[of env task w] orchestrate_error[of env task w]
    query_sandbox_events[of env prompt w] query_error[of env prompt w]
  by (intro conjI)

theorem sandbox_lifecycle_witness:
  "fst (query env_start_fails ''plot temp one'' world_example) = Some ''no sandbox''
   \<and> sandbox_events (snd (query env_start_fails ''plot temp one'' world_example)) =
       [StartFailed ''no sandbox'', StopOk]
   \<and> fst (query env_stop_fails ''plot temp one'' world_example) = None
   \<and> sandbox_events (snd (query env_stop_fails ''plot temp one'' world_example)) =
       [StartOk, RunStream (query_task env_stop_fails ''plot temp one'' world_example),
        Yielded ''code_developer: plan and code'',
        Yielded ''code_executor: exit code 0'',
        Yielded ''code_developer: the answer. TERMINATE'',
        Yielded ''Stopping reason: Text TERMINATE mentioned'',
        StopFailed ''busy'', StopFailed ''busy'']"
proof -
  have a: "start_fault env_start_fails = Some ''no sandbox''"
    "stop_fault env_start_fails Fresh = None"
    by (simp_all add: env_start_fails_def env_example_def)
  have b: "start_fault env_stop_fails = None" "stop_fault env_stop_fails = (\<lambda>s. Some ''busy'')"
    "run_stream env_stop_fails = (\<lambda>task. ([TextMessage ''code_developer'' ''plan and code'',
                  TextMessage ''code_executor'' ''exit code 0'',
                  TextMessage ''code_developer'' ''the answer. TERMINATE'',
                  TaskResult (Some ''Text TERMINATE mentioned'')], None))"
    by (simp_all add: env_stop_fails_def env_three_turns_def env_example_def)
  have c: "trace world_example = []" by (simp add: world_example_def)
  from sandbox_lifecycle[of env_start_fails "''t''" world_example "''plot temp one''"]
    sandbox_lifecycle[of env_stop_fails "''t''" world_example "''plot temp one''"]
  show ?thesis
    by (simp add: a b c stop_event_def List.map_filter_simps)
qed

section \<open>Properties of routing\<close>

lemma path_suffix_append:
  assumes "e \<noteq> []" "CHR ''.'' \<notin> set e" "stem \<noteq> []"
  shows "path_suffix (stem @ CHR ''.'' # e) = CHR ''.'' # e"
proof -
  have "takeWhile (\<lambda>c. c \<noteq> CHR ''.'') (rev e @ CHR ''.'' # rev stem) = rev e"
    using assms(2) by (subst takeWhile_append2) auto
  then have t: "rev (takeWhile (\<lambda>c. c \<noteq> CHR ''.'') (rev (stem @ CHR ''.'' # e))) = e"
    by simp
  have l: "length (stem @ CHR ''.'' # e) - length e - 1 = length stem" by simp
  show ?thesis
    unfolding path_suffix_def Let_def t l using assms by simp
qed

lemma find_dataset_path_suffix:
  assumes "find_dataset_path fs ds = Some fp"
  shows "lower (path_suffix (last fp)) \<in> set DATA_EXTS"
proof (cases "ds \<noteq> None \<and> ds \<noteq> Some []")
  case True
  then obtain d where d: "ds = Some d" "d \<noteq> []" by auto
  with assms have "fp \<in> set (map (\<lambda>ext. TEMP_DIR @ [d @ ext]) DATA_EXTS)"
    by (auto simp: find_dataset_path_def find_Some_iff)
  then obtain ext where ext: "ext \<in> set DATA_EXTS" "last fp = d @ ext" by auto
  from ext(1) obtain e where e: "ext = CHR ''.'' # e" "e \<noteq> []" "CHR ''.'' \<notin> set e"
    by (auto simp: DATA_EXTS_def)
  have "path_suffix (last fp) = ext"
    unfolding ext(2) e(1) using path_suffix_append[OF e(2,3) d(2)] .
  moreover have "lower ext = ext"
    using ext(1) by (auto simp: DATA_EXTS_def lower_def char_lower_def)
  ultimately show ?thesis using ext(1) by simp
next
  case False
  with assms have "List.find (is_dataset_file fs) (sort (iterdir fs TEMP_DIR)) = Some fp"
    by (auto simp: find_dataset_path_def)
  then have "is_dataset_file fs fp" by (auto simp: find_Some_iff)
  then show ?thesis by (simp add: is_dataset_file_def)
qed

lemma cleanup_stale_pngs_sandbox_events:
  "sandbox_events (cleanup_stale_pngs env w) = sandbox_events w"
  unfolding cleanup_stale_pngs_def Let_def
  by (rule fold_invariant) (auto split: sum.splits)

lemma report_branch_trace:
  "trace (report_branch env cols ds w) = trace w @
     (case find_dataset_path (files w) ds of
        None \<Rightarrow> [UiWarning ''Uploaded dataset not found.'']
      | Some file_path \<Rightarrow>
          (case read_dataset env file_path of
             Some e \<Rightarrow> [UiError (''Failed to load dataset: '' @ e)]
           | None \<Rightarrow> [ReportGenerated file_path cols,
                       UiSuccess ''PDF report generated successfully!'']))"
proof (cases "find_dataset_path (files w) ds")
  case None
  then show ?thesis by (simp add: report_branch_def)
next
  case (Some fp)
  from find_dataset_path_suffix[OF this]
  have "lower (path_suffix (last fp)) \<in> set [''.csv'', ''.tsv'', ''.xlsx'', ''.xls'', ''.json'']"
    by (simp add: DATA_EXTS_def)
  with Some show ?thesis
    by (simp add: report_branch_def split: option.splits)
qed

lemma handle_prompt_cases:
  assumes "prompt \<noteq> []"
  shows "handle_prompt env prompt w =
     (if contains (lower prompt) ''report'' \<and> fst (parse_columns prompt) \<noteq> []
      then (None, report_branch env (fst (parse_columns prompt)) (snd (parse_columns prompt))
                    (cleanup_stale_pngs env w))
      else query env prompt (cleanup_stale_pngs env w))"
  using assms by (simp add: handle_prompt_def Let_def case_prod_beta)

subsection \<open>Claim C7: routing of a prompt\<close>

text \<open>
  C7. For a submitted (non-empty) prompt: if its lower-cased text contains \<open>report\<close>
  and \<open>parse_columns\<close> recognizes at least one column, the prompt is handled by the
  report branch, on the dataset that \<open>find_dataset_path\<close> resolves: a report on that
  dataset and these columns when it is found and loads, a warning or an error otherwise,
  and no event of the sandbox or of the loop. In every other case the prompt is handled by
  \<open>query\<close>, and the task of the loop is the prompt, a line break, and
  \<open>Available datasets:\<close> with the paths of the dataset files of the run directory,
  separated by commas.
\<close>

theorem prompt_routing:
  assumes "prompt \<noteq> []"
  shows "(contains (lower prompt) ''report'' \<and> fst (parse_columns prompt) \<noteq> [] \<longrightarrow>
      handle_prompt env prompt w =
        (None, report_branch env (fst (parse_columns prompt)) (snd (parse_columns prompt))
                 (cleanup_stale_pngs env w))
      \<and> trace (snd (handle_prompt env prompt w)) = trace (cleanup_stale_pngs env w) @
          (case find_dataset_path (files (cleanup_stale_pngs env w)) (snd (parse_columns prompt)) of
             None \<Rightarrow> [UiWarning ''Uploaded dataset not found.'']
           | Some file_path \<Rightarrow>
               (case read_dataset env file_path of
                  Some e \<Rightarrow> [UiError (''Failed to load dataset: '' @ e)]
                | None \<Rightarrow> [ReportGenerated file_path (fst (parse_columns prompt)),
                            UiSuccess ''PDF report generated successfully!'']))
      \<and> sandbox_events (snd (handle_prompt env prompt w)) = sandbox_events w)
   \<and> (\<not> (contains (lower prompt) ''report'' \<and> fst (parse_columns prompt) \<noteq> []) \<longrightarrow>
      handle_prompt env prompt w = query env prompt (cleanup_stale_pngs env w)
      \<and> query_task env prompt (cleanup_stale_pngs env w) =
          prompt @ [CHR 0x0A] @ ''Available datasets: '' @
          join '', ''
            (map path_str
               (filter
                  (is_dataset_file
                     (files (seed_run_dir env (TEMP_DIR @ [run_id env]) (cleanup_stale_pngs env w))))
                  (iterdir
                     (files (seed_run_dir env (TEMP_DIR @ [run_id env]) (cleanup_stale_pngs env w)))
                     (TEMP_DIR @ [run_id env]))))
      \<and> sandbox_events (snd (handle_prompt env prompt w)) = sandbox_events w @
          (case start_fault env of
             Some e \<Rightarrow> [StartFailed e, stop_event env Fresh]
           | None \<Rightarrow>
               [StartOk, RunStream (query_task env prompt (cleanup_stale_pngs env w))] @
               map Yielded
                 (List.map_filter render
                    (fst (run_stream env (query_task env prompt (cleanup_stale_pngs env w))))) @
               [stop_event env Running,
                stop_event env (if stop_fault env Running = None then Stopped else Running)]))"
proof (intro conjI impI)
  assume r: "contains (lower prompt) ''report'' \<and> fst (parse_columns prompt) \<noteq> []"
  show h: "handle_prompt env prompt w =
        (None, report_branch env (fst (parse_columns prompt)) (snd (parse_columns prompt))
                 (cleanup_stale_pngs env w))"
    using r by (simp add: handle_prompt_cases[OF assms])
  show "trace (snd (handle_prompt env prompt w)) = trace (cleanup_stale_pngs env w) @
          (case find_dataset_path (files (cleanup_stale_pngs env w)) (snd (parse_columns prompt)) of
             None \<Rightarrow> [UiWarning ''Uploaded dataset not found.'']
           | Some file_path \<Rightarrow>
               (case read_dataset env file_path of
                  Some e \<Rightarrow> [UiError (''Failed to load dataset: '' @ e)]
                | None \<Rightarrow> [ReportGenerated file_path (fst (parse_columns prompt)),
                            UiSuccess ''PDF report generated successfully!'']))"
    unfolding h by (simp add: report_branch_trace)
  show "sandbox_events (snd (handle_prompt env prompt w)) = sandbox_events w"
    unfolding h
    by (simp add: report_branch_trace cleanup_stale_pngs_sandbox_events split: option.splits)
next
  assume r: "\<not> (contains (lower prompt) ''report'' \<and> fst (parse_columns prompt) \<noteq> [])"
  show h: "handle_prompt env prompt w = query env prompt (cleanup_stale_pngs env w)"
    using r handle_prompt_cases[OF assms, of env w] by auto
  show "query_task env prompt (cleanup_stale_pngs env w) =
          prompt @ [CHR 0x0A] @ ''Available datasets: '' @
          join '', ''
            (map path_str
               (filter
                  (is_dataset_file
                     (files (seed_run_dir env (TEMP_DIR @ [run_id env]) (cleanup_stale_pngs env w))))
                  (iterdir
                     (files (seed_run_dir env (TEMP_DIR @ [run_id env]) (cleanup_stale_pngs env w)))
                     (TEMP_DIR @ [run_id env]))))"
    by (simp add: query_task_def make_task_def dataset_paths_def)
  show "sandbox_events (snd (handle_prompt env prompt w)) = sandbox_events w @
          (case start_fault env of
             Some e \<Rightarrow> [StartFailed e, stop_event env Fresh]
           | None \<Rightarrow>
               [StartOk, RunStream (query_task env prompt (cleanup_stale_pngs env w))] @
               map Yielded
                 (List.map_filter render
                    (fst (run_stream env (query_task env prompt (cleanup_stale_pngs env w))))) @
               [stop_event env Running,
                stop_event env (if stop_fault env Running = None then Stopped else Running)])"
    unfolding h query_sandbox_events cleanup_stale_pngs_sandbox_events ..
qed

theorem prompt_routing_witness:
  "trace (snd (handle_prompt env_three_turns ''REPORT for Vib X'' world_example)) =
     [ReportGenerated [''temp'', ''data1.json''] [''vibration_x''],
      UiSuccess ''PDF report generated successfully!'']
   \<and> sandbox_events (snd (handle_prompt env_three_turns ''Report on the weather'' world_example)) =
     [StartOk,
      RunStream (''Report on the weather'' @ [CHR 0x0A] @
        ''Available datasets: temp/0123456789abcdef0123456789abcdef/data2.csv, temp/0123456789abcdef0123456789abcdef/data1.json''),
      Yielded ''code_developer: plan and code'',
      Yielded ''code_executor: exit code 0'',
      Yielded ''code_developer: the answer. TERMINATE'',
      Yielded ''Stopping reason: Text TERMINATE mentioned'',
      StopOk, StopOk]"
proof -
  have a: "''REPORT for Vib X'' \<noteq> []" "''Report on the weather'' \<noteq> []" by simp_all
  have b: "contains (lower ''REPORT for Vib X'') ''report'' \<and>
           fst (parse_columns ''REPORT for Vib X'') \<noteq> []"
    by code_simp
  have b': "fst (parse_columns ''REPORT for Vib X'') = [''vibration_x'']"
    "snd (parse_columns ''REPORT for Vib X'') = None"
    by code_simp+
  have c: "\<not> (contains (lower ''Report on the weather'') ''report'' \<and>
              fst (parse_columns ''Report on the weather'') \<noteq> [])"
    by code_simp
  have d: "trace (cleanup_stale_pngs env_three_turns world_example) = []"
    "find_dataset_path (files (cleanup_stale_pngs env_three_turns world_example)) None =
       Some [''temp'', ''data1.json'']"
    "read_dataset env_three_turns [''temp'', ''data1.json''] = None"
    by code_simp+
  have e: "query_task env_three_turns ''Report on the weather''
             (cleanup_stale_pngs env_three_turns world_example) =
           ''Report on the weather'' @ [CHR 0x0A] @
        ''Available datasets: temp/0123456789abcdef0123456789abcdef/data2.csv, temp/0123456789abcdef0123456789abcdef/data1.json''"
    by code_simp
  have f: "start_fault env_three_turns = None" "stop_fault env_three_turns = (\<lambda>s. None)"
    "run_stream env_three_turns = (\<lambda>task. ([TextMessage ''code_developer'' ''plan and code'',
                  TextMessage ''code_executor'' ''exit code 0'',
                  TextMessage ''code_developer'' ''the answer. TERMINATE'',
                  TaskResult (Some ''Text TERMINATE mentioned'')], None))"
    "trace world_example = []"
    by (simp_all add: env_three_turns_def env_example_def world_example_def)
  from prompt_routing[OF a(1), of env_three_turns world_example] b
  have "trace (snd (handle_prompt env_three_turns ''REPORT for Vib X'' world_example)) =
      trace (cleanup_stale_pngs env_three_turns world_example) @
          (case find_dataset_path (files (cleanup_stale_pngs env_three_turns world_example))
                  (snd (parse_columns ''REPORT for Vib X'')) of
             None \<Rightarrow> [UiWarning ''Uploaded dataset not found.'']
           | Some file_path \<Rightarrow>
               (case read_dataset env_three_turns file_path of
                  Some e \<Rightarrow> [UiError (''Failed to load dataset: '' @ e)]
                | None \<Rightarrow> [ReportGenerated file_path (fst (parse_columns ''REPORT for Vib X'')),
                            UiSuccess ''PDF report generated successfully!'']))"
    by blast
  then have 1: "trace (snd (handle_prompt env_three_turns ''REPORT for Vib X'' world_example)) =
     [ReportGenerated [''temp'', ''data1.json''] [''vibration_x''],
      UiSuccess ''PDF report generated successfully!'']"
    by (simp add: b' d)
  from prompt_routing[OF a(2), of env_three_turns world_example] c
  have "sandbox_events (snd (handle_prompt env_three_turns ''Report on the weather'' world_example)) =
      sandbox_events world_example @
          (case start_fault env_three_turns of
             Some e \<Rightarrow> [StartFailed e, stop_event env_three_turns Fresh]
           | None \<Rightarrow>
               [StartOk, RunStream (query_task env_three_turns ''Report on the weather''
                                      (cleanup_stale_pngs env_three_turns world_example))] @
               map Yielded
                 (List.map_filter render
                    (fst (run_stream env_three_turns
                       (query_task env_three_turns ''Report on the weather''
                          (cleanup_stale_pngs env_three_turns world_example))))) @
               [stop_event env_three_turns Running,
                stop_event env_three_turns
                  (if stop_fault env_three_turns Running = None then Stopped else Running)])"
    by blast
  then have 2: "sandbox_events (snd (handle_prompt env_three_turns ''Report on the weather'' world_example)) =
     [StartOk,
      RunStream (''Report on the weather'' @ [CHR 0x0A] @
        ''Available datasets: temp/0123456789abcdef0123456789abcdef/data2.csv, temp/0123456789abcdef0123456789abcdef/data1.json''),
      Yielded ''code_developer: plan and code'',
      Yielded ''code_executor: exit code 0'',
      Yielded ''code_developer: the answer. TERMINATE'',
      Yielded ''Stopping reason: Text TERMINATE mentioned'',
      StopOk, StopOk]"
    by (simp add: e f stop_event_def List.map_filter_simps)
  from 1 2 show ?thesis by simp
qed

section \<open>Properties of the promotion and of the removal of the run directory\<close>

lemma last_sort_key_max:
  fixes f :: "'a \<Rightarrow> nat"
  assumes "xs \<noteq> []"
  shows "last (sort_key f xs) \<in> set xs \<and> (\<forall>x\<in>set xs. f x \<le> f (last (sort_key f xs)))"
proof -
  let ?ys = "sort_key f xs"
  have ne: "?ys \<noteq> []" using assms by (metis set_empty set_sort)
  have s: "sorted (map f ?ys)" by (rule sorted_sort_key)
  have "last ?ys \<in> set xs" using ne by (metis last_in_set set_sort)
  moreover have "f x \<le> f (last ?ys)" if "x \<in> set xs" for x
  proof -
    from that obtain i where i: "i < length ?ys" "?ys ! i = x"
      by (metis in_set_conv_nth set_sort)
    have "map f ?ys ! i \<le> map f ?ys ! (length ?ys - 1)"
      using s i ne by (intro sorted_nth_mono) auto
    then show ?thesis using i ne by (simp add: last_conv_nth)
  qed
  ultimately show ?thesis by blast
qed

lemma promote_unfold:
  "promote env d w =
     (case scan_fault env of
        Some e \<Rightarrow> emit [Printed (''Warning while scanning run_dir for PNGs: '' @ e)] w
      | None \<Rightarrow>
          if glob_png (files w) d = [] then w
          else
            (case copy2 (copy_fault env (latest_png (files w) d) (promotion_dest env (files w) d))
                    (files w) (latest_png (files w) d) (promotion_dest env (files w) d) of
               Inl e \<Rightarrow>
                 emit [Printed (''Warning: failed to copy plot to persistent storage: '' @ e)] w
             | Inr copied \<Rightarrow>
                 (let w1 = w\<lparr>files := copied,
                             state := (state w)
                               \<lparr>last_plot := Some (promotion_dest env (files w) d),
                                last_plot_filename := Some (last (promotion_dest env (files w) d))\<rparr>\<rparr>
                  in case (if last_plot (state w) = Some [] then None else last_plot (state w)) of
                       None \<Rightarrow> w1
                     | Some prev \<Rightarrow>
                         (if path_exists copied prev \<and> prev \<noteq> promotion_dest env (files w) d then
                            (case unlink (unlink_fault env prev) copied prev of
                               Inl e \<Rightarrow>
                                 emit [Printed (''Warning: could not remove previous persistent plot: '' @ e)] w1
                             | Inr removed \<Rightarrow> w1\<lparr>files := removed\<rparr>)
                          else w1))))"
proof -
  have e: "(sort_key (st_mtime (files w)) (glob_png (files w) d) = []) = (glob_png (files w) d = [])"
    by (metis set_empty set_sort)
  show ?thesis
    unfolding promote_def Let_def latest_png_def promotion_dest_def e by (rule refl)
qed

lemma copy2_Inr:
  assumes "copy2 fault fs src dst = Inr fs'"
  shows "is_file fs src \<and> map_of fs' dst = map_of fs src \<and>
         (\<forall>q. q \<noteq> dst \<longrightarrow> map_of fs' q = map_of fs q)"
  using assms
  by (auto simp: copy2_def is_file_def update_conv' split: option.splits node.splits)

lemma unlink_Inr:
  assumes "unlink fault fs p = Inr fs'"
  shows "map_of fs' p = None \<and> (\<forall>q. q \<noteq> p \<longrightarrow> map_of fs' q = map_of fs q)"
  using assms
  by (auto simp: unlink_def delete_conv' split: option.splits node.splits)

lemma promote_noop:
  assumes "scan_fault env \<noteq> None \<or> glob_png (files w) d = [] \<or>
     (\<exists>e. copy2 (copy_fault env (latest_png (files w) d) (promotion_dest env (files w) d))
            (files w) (latest_png (files w) d) (promotion_dest env (files w) d) = Inl e)"
  shows "state (promote env d w) = state w \<and> files (promote env d w) = files w"
  using assms by (auto simp: promote_unfold split: option.splits)

lemma promote_success:
  assumes "scan_fault env = None" "glob_png (files w) d \<noteq> []"
    "copy2 (copy_fault env (latest_png (files w) d) (promotion_dest env (files w) d))
       (files w) (latest_png (files w) d) (promotion_dest env (files w) d) = Inr copied"
  shows "state (promote env d w) =
           (state w)\<lparr>last_plot := Some (promotion_dest env (files w) d),
                     last_plot_filename := Some (last (promotion_dest env (files w) d))\<rparr>"
    and "files (promote env d w) = copied \<or>
         (\<exists>prev. last_plot (state w) = Some prev \<and> prev \<noteq> promotion_dest env (files w) d \<and>
            unlink (unlink_fault env prev) copied prev = Inr (files (promote env d w)))"
  using assms
  by (auto simp: promote_unfold Let_def split: option.splits sum.splits if_splits)

lemma promote_files:
  assumes "scan_fault env = None" "glob_png (files w) d \<noteq> []"
    "copy2 (copy_fault env (latest_png (files w) d) (promotion_dest env (files w) d))
       (files w) (latest_png (files w) d) (promotion_dest env (files w) d) = Inr copied"
  shows "map_of (files (promote env d w)) (promotion_dest env (files w) d) =
           map_of (files w) (latest_png (files w) d)"
    and "q \<noteq> promotion_dest env (files w) d \<Longrightarrow> last_plot (state w) \<noteq> Some q \<Longrightarrow>
           map_of (files (promote env d w)) q = map_of (files w) q"
    and "path_exists (files w) q \<Longrightarrow> \<not> path_exists (files (promote env d w)) q \<Longrightarrow>
           last_plot (state w) = Some q \<and> q \<noteq> promotion_dest env (files w) d"
proof -
  let ?dest = "promotion_dest env (files w) d"
  let ?src = "latest_png (files w) d"
  note c = copy2_Inr[OF assms(3)]
  from promote_success(2)[OF assms]
  consider (kept) "files (promote env d w) = copied"
    | (replaced) prev where "last_plot (state w) = Some prev" "prev \<noteq> ?dest"
        "unlink (unlink_fault env prev) copied prev = Inr (files (promote env d w))"
    by blast
  then have "map_of (files (promote env d w)) ?dest = map_of (files w) ?src \<and>
    (q \<noteq> ?dest \<longrightarrow> last_plot (state w) \<noteq> Some q \<longrightarrow>
       map_of (files (promote env d w)) q = map_of (files w) q) \<and>
    (path_exists (files w) q \<longrightarrow> \<not> path_exists (files (promote env d w)) q \<longrightarrow>
       last_plot (state w) = Some q \<and> q \<noteq> ?dest)"
  proof cases
    case kept
    with c show ?thesis
      by (cases "q = ?dest") (auto simp: path_exists_def is_file_def split: option.splits)
  next
    case replaced
    note u = unlink_Inr[OF replaced(3)]
    show ?thesis
    proof (intro conjI impI)
      show "map_of (files (promote env d w)) ?dest = map_of (files w) ?src"
        using u c replaced(2) by metis
      show "map_of (files (promote env d w)) q = map_of (files w) q"
        if "q \<noteq> ?dest" "last_plot (state w) \<noteq> Some q"
        using that u c replaced(1) by metis
      show "last_plot (state w) = Some q" "q \<noteq> ?dest"
        if "path_exists (files w) q" "\<not> path_exists (files (promote env d w)) q"
      proof -
        have ne: "q \<noteq> ?dest"
        proof
          assume "q = ?dest"
          then have "map_of (files (promote env d w)) q = map_of (files w) ?src"
            using u c replaced(2) by metis
          with c that(2) show False
            by (auto simp: path_exists_def is_file_def split: option.splits)
        qed
        have "q = prev"
        proof (rule ccontr)
          assume "q \<noteq> prev"
          with u c ne have "map_of (files (promote env d w)) q = map_of (files w) q" by metis
          with that show False by (simp add: path_exists_def)
        qed
        with replaced(1) ne show "last_plot (state w) = Some q" "q \<noteq> ?dest" by simp_all
      qed
    qed
  qed
  then show "map_of (files (promote env d w)) ?dest = map_of (files w) ?src"
    and "q \<noteq> ?dest \<Longrightarrow> last_plot (state w) \<noteq> Some q \<Longrightarrow>
           map_of (files (promote env d w)) q = map_of (files w) q"
    and "path_exists (files w) q \<Longrightarrow> \<not> path_exists (files (promote env d w)) q \<Longrightarrow>
           last_plot (state w) = Some q \<and> q \<noteq> ?dest"
    by blast+
qed

lemma latest_png_latest:
  assumes "glob_png fs d \<noteq> []"
  shows "latest_png fs d \<in> set (glob_png fs d) \<and> butlast (latest_png fs d) = d \<and>
         suffix ''.png'' (last (latest_png fs d)) \<and>
         (\<forall>p. p \<in> set (glob_png fs d) \<longrightarrow> st_mtime fs p \<le> st_mtime fs (latest_png fs d))"
proof -
  from last_sort_key_max[OF assms, of "st_mtime fs"]
  have a: "latest_png fs d \<in> set (glob_png fs d)"
    and b: "\<forall>p\<in>set (glob_png fs d). st_mtime fs p \<le> st_mtime fs (latest_png fs d)"
    by (simp_all add: latest_png_def)
  from a have "butlast (latest_png fs d) = d \<and> suffix ''.png'' (last (latest_png fs d))"
    by (simp add: glob_png_def iterdir_def)
  with a b show ?thesis by blast
qed

subsection \<open>Claim C2: promotion of the latest image\<close>

text \<open>
  C2. When the run directory has images, the one \<open>promote\<close> picks has the latest
  modification time among them, and its destination is a file of the workspace whose name
  is the run identifier, an underscore and the name of the image. If the copy succeeds,
  the slot is the destination and its display name, the destination holds the image, and
  every path other than the destination and the previous slot is as it was. If the scan
  fails, there is no image or the copy fails, the session state and the files are
  unchanged: the slot keeps its value. A path that exists before and not after the
  promotion is the previous slot, differs from the destination, and the slot then is the
  destination, which exists: the old file is only removed after a successful copy.
\<close>

theorem promotion_atomic:
  "(scan_fault env = None \<and> glob_png (files w) d \<noteq> [] \<longrightarrow>
      latest_png (files w) d \<in> set (glob_png (files w) d)
      \<and> (\<forall>p. p \<in> set (glob_png (files w) d) \<longrightarrow>
            st_mtime (files w) p \<le> st_mtime (files w) (latest_png (files w) d))
      \<and> butlast (promotion_dest env (files w) d) = TEMP_DIR
      \<and> last (promotion_dest env (files w) d) =
            run_id env @ ''_'' @ last (latest_png (files w) d))
   \<and> (\<forall>copied.
        scan_fault env = None \<and> glob_png (files w) d \<noteq> [] \<and>
        copy2 (copy_fault env (latest_png (files w) d) (promotion_dest env (files w) d))
          (files w) (latest_png (files w) d) (promotion_dest env (files w) d) = Inr copied \<longrightarrow>
        last_plot (state (promote env d w)) = Some (promotion_dest env (files w) d)
        \<and> last_plot_filename (state (promote env d w)) =
            Some (last (promotion_dest env (files w) d))
        \<and> map_of (files (promote env d w)) (promotion_dest env (files w) d) =
            map_of (files w) (latest_png (files w) d)
        \<and> is_file (files (promote env d w)) (promotion_dest env (files w) d)
        \<and> (\<forall>q. q \<noteq> promotion_dest env (files w) d \<and> last_plot (state w) \<noteq> Some q \<longrightarrow>
              map_of (files (promote env d w)) q = map_of (files w) q))
   \<and> (scan_fault env \<noteq> None \<or> glob_png (files w) d = [] \<or>
       (\<exists>e. copy2 (copy_fault env (latest_png (files w) d) (promotion_dest env (files w) d))
               (files w) (latest_png (files w) d) (promotion_dest env (files w) d) = Inl e) \<longrightarrow>
        state (promote env d w) = state w \<and> files (promote env d w) = files w)
   \<and> (\<forall>q. path_exists (files w) q \<and> \<not> path_exists (files (promote env d w)) q \<longrightarrow>
        last_plot (state w) = Some q \<and> q \<noteq> promotion_dest env (files w) d
        \<and> last_plot (state (promote env d w)) = Some (promotion_dest env (files w) d)
        \<and> is_file (files (promote env d w)) (promotion_dest env (files w) d))"
proof -
  let ?src = "latest_png (files w) d"
  let ?dest = "promotion_dest env (files w) d"
  let ?copy = "copy2 (copy_fault env ?src ?dest) (files w) ?src ?dest"
  let ?w' = "promote env d w"
  have sel: "?src \<in> set (glob_png (files w) d)
      \<and> (\<forall>p. p \<in> set (glob_png (files w) d) \<longrightarrow> st_mtime (files w) p \<le> st_mtime (files w) ?src)
      \<and> butlast ?dest = TEMP_DIR \<and> last ?dest = run_id env @ ''_'' @ last ?src"
    if "scan_fault env = None \<and> glob_png (files w) d \<noteq> []"
    using latest_png_latest[of "files w" d] that by (simp add: promotion_dest_def)
  have ok: "last_plot (state ?w') = Some ?dest
        \<and> last_plot_filename (state ?w') = Some (last ?dest)
        \<and> map_of (files ?w') ?dest = map_of (files w) ?src
        \<and> is_file (files ?w') ?dest
        \<and> (\<forall>q. q \<noteq> ?dest \<and> last_plot (state w) \<noteq> Some q \<longrightarrow>
              map_of (files ?w') q = map_of (files w) q)"
    if h: "scan_fault env = None \<and> glob_png (files w) d \<noteq> [] \<and> ?copy = Inr copied" for copied
  proof -
    from h have a: "scan_fault env = None" "glob_png (files w) d \<noteq> []" "?copy = Inr copied"
      by simp_all
    have m: "map_of (files ?w') ?dest = map_of (files w) ?src"
      using promote_files(1)[OF a] .
    have "is_file (files w) ?src" using copy2_Inr[OF a(3)] by simp
    with m have "is_file (files ?w') ?dest" by (simp add: is_file_def)
    with m promote_success(1)[OF a] promote_files(2)[OF a] show ?thesis by simp
  qed
  have keep: "state ?w' = state w \<and> files ?w' = files w"
    if "scan_fault env \<noteq> None \<or> glob_png (files w) d = [] \<or> (\<exists>e. ?copy = Inl e)"
    using promote_noop[OF that] .
  have del: "last_plot (state w) = Some q \<and> q \<noteq> ?dest
        \<and> last_plot (state ?w') = Some ?dest \<and> is_file (files ?w') ?dest"
    if h: "path_exists (files w) q \<and> \<not> path_exists (files ?w') q" for q
  proof -
    have "files ?w' \<noteq> files w" using h by auto
    with keep have n: "scan_fault env = None" "glob_png (files w) d \<noteq> []" "\<not> (\<exists>e. ?copy = Inl e)"
      by blast+
    then obtain copied where c: "?copy = Inr copied" by (cases ?copy) auto
    from promote_files(3)[OF n(1,2) c, of q] h ok[of copied] n c show ?thesis by blast
  qed
  from sel ok keep del show ?thesis by blast
qed

theorem promotion_atomic_witness:
  "last_plot (state (promote env_example [''temp'', ''0123456789abcdef0123456789abcdef'']
       world_with_plots)) = Some [''temp'', ''0123456789abcdef0123456789abcdef_second.png'']
   \<and> map_of (files (promote env_example [''temp'', ''0123456789abcdef0123456789abcdef'']
       world_with_plots)) [''temp'', ''0123456789abcdef0123456789abcdef_second.png''] =
       Some (File ''plot 2'' 12)
   \<and> \<not> path_exists (files (promote env_example [''temp'', ''0123456789abcdef0123456789abcdef'']
       world_with_plots)) [''temp'', ''ffff_old.png'']
   \<and> state (promote env_copy_fails [''temp'', ''0123456789abcdef0123456789abcdef'']
       world_with_plots) = state world_with_plots
   \<and> files (promote env_copy_fails [''temp'', ''0123456789abcdef0123456789abcdef'']
       world_with_plots) = files world_with_plots"
proof -
  let ?d = "[''temp'', ''0123456789abcdef0123456789abcdef'']"
  let ?copy = "\<lambda>env. copy2 (copy_fault env (latest_png (files world_with_plots) ?d)
                              (promotion_dest env (files world_with_plots) ?d))
          (files world_with_plots) (latest_png (files world_with_plots) ?d)
          (promotion_dest env (files world_with_plots) ?d)"
  have g: "scan_fault env_example = None" "glob_png (files world_with_plots) ?d \<noteq> []"
    by code_simp+
  have src: "latest_png (files world_with_plots) ?d =
             [''temp'', ''0123456789abcdef0123456789abcdef'', ''second.png'']"
    and dest: "promotion_dest env_example (files world_with_plots) ?d =
             [''temp'', ''0123456789abcdef0123456789abcdef_second.png'']"
    and m: "map_of (files world_with_plots)
              [''temp'', ''0123456789abcdef0123456789abcdef'', ''second.png''] =
            Some (File ''plot 2'' 12)"
    by code_simp+
  have "case ?copy env_example of Inr copied \<Rightarrow> True | Inl e \<Rightarrow> False" by code_simp
  then obtain copied where c: "?copy env_example = Inr copied"
    by (cases "?copy env_example") auto
  have f: "?copy env_copy_fails = Inl ''disk full''"
    by (simp add: copy2_def env_copy_fails_def)
  have u: "\<not> path_exists (files (promote env_example ?d world_with_plots)) [''temp'', ''ffff_old.png'']"
    by code_simp
  from promotion_atomic[of env_example world_with_plots ?d] g c
  have 1: "last_plot (state (promote env_example ?d world_with_plots)) =
             Some (promotion_dest env_example (files world_with_plots) ?d)
        \<and> map_of (files (promote env_example ?d world_with_plots))
              (promotion_dest env_example (files world_with_plots) ?d) =
            map_of (files world_with_plots) (latest_png (files world_with_plots) ?d)"
    by blast
  from promotion_atomic[of env_copy_fails world_with_plots ?d] f
  have 2: "state (promote env_copy_fails ?d world_with_plots) = state world_with_plots \<and>
           files (promote env_copy_fails ?d world_with_plots) = files world_with_plots"
    by blast
  from 1 2 u show ?thesis by (simp add: src dest m)
qed

subsection \<open>Removal of the run directory\<close>

lemma map_of_filter_keep:
  "(\<And>n. P (q, n)) \<Longrightarrow> map_of (filter P fs) q = map_of fs q"
  by (induction fs) auto

lemma map_of_filter_drop:
  "(\<And>n. \<not> P (q, n)) \<Longrightarrow> map_of (filter P fs) q = None"
  by (induction fs) auto

lemma rmtree_outside:
  "\<not> prefix d q \<Longrightarrow> map_of (snd (rmtree fault fs d)) q = map_of fs q"
  by (cases fault) (auto simp: rmtree_def intro!: map_of_filter_keep)

lemma rmtree_inside:
  "prefix d q \<Longrightarrow> map_of (snd (rmtree None fs d)) q = None"
  by (auto simp: rmtree_def intro!: map_of_filter_drop)

lemma destroy_run_dir_outside:
  "\<not> prefix d q \<Longrightarrow> map_of (files (destroy_run_dir env d w)) q = map_of (files w) q"
  using rmtree_outside[of d q "rmtree_fault env" "files w"]
  by (auto simp: destroy_run_dir_def split: prod.splits option.splits)

lemma destroy_run_dir_inside:
  assumes "rmtree_fault env = None" "is_dir (files w) d" "prefix d q"
  shows "\<not> path_exists (files (destroy_run_dir env d w)) q"
proof -
  have "path_exists (files w) d" using assms(2)
    by (auto simp: is_dir_def path_exists_def split: option.splits)
  with assms rmtree_inside[OF assms(3), of "files w"] show ?thesis
    by (auto simp: destroy_run_dir_def path_exists_def split: prod.splits option.splits)
qed

lemma promotion_dest_outside:
  assumes "CHR ''_'' \<notin> set rid"
  shows "\<not> prefix (TEMP_DIR @ [rid]) (promotion_dest env fs d)"
proof
  assume "prefix (TEMP_DIR @ [rid]) (promotion_dest env fs d)"
  then have "rid = run_id env @ ''_'' @ last (latest_png fs d)"
    by (auto simp: promotion_dest_def prefix_def)
  with assms show False by auto
qed

subsection \<open>Claim C4: what the end of a query leaves alone\<close>

text \<open>
  C4. When the run directory has no image at the end of the loop, the \<open>finally\<close>
  block leaves the slot as it is, path and display name, and promotes nothing: the
  promotion changes neither the files nor the session state, and the slot's file, which
  lies outside the run directory, is the same file afterwards. Removing the run
  directory changes no path outside it, whether the removal fails or not, and when it
  does not fail, the directory and everything below it are gone. The file of a slot that
  a promotion has set is a file of the workspace, outside every run directory (the
  identifier of a run is a hexadecimal string and has no underscore).
\<close>

theorem run_dir_removal_keeps_slot:
  "(glob_png (files w) d = [] \<longrightarrow>
      state (promote env d w) = state w \<and> files (promote env d w) = files w
      \<and> last_plot (state (finally_block env d w)) = last_plot (state w)
      \<and> last_plot_filename (state (finally_block env d w)) = last_plot_filename (state w)
      \<and> (\<forall>q. last_plot (state w) = Some q \<and> \<not> prefix d q \<longrightarrow>
            map_of (files (finally_block env d w)) q = map_of (files w) q))
   \<and> (\<forall>q. \<not> prefix d q \<longrightarrow>
        map_of (files (destroy_run_dir env d w)) q = map_of (files w) q)
   \<and> (rmtree_fault env = None \<and> is_dir (files w) d \<longrightarrow>
        (\<forall>q. prefix d q \<longrightarrow> \<not> path_exists (files (destroy_run_dir env d w)) q))
   \<and> (\<forall>rid. CHR ''_'' \<notin> set rid \<longrightarrow>
        \<not> prefix (TEMP_DIR @ [rid]) (promotion_dest env (files w) d))"
proof (intro conjI impI allI)
  assume g: "glob_png (files w) d = []"
  show p: "state (promote env d w) = state w" "files (promote env d w) = files w"
    using promote_noop[of env w d] g by simp_all
  have g': "glob_png (files (save_team_state env w)) d = []"
    using g by (simp add: save_team_state_effect)
  have ps: "state (promote env d (save_team_state env w)) = state (save_team_state env w)"
    "files (promote env d (save_team_state env w)) = files w"
    using promote_noop[of env "save_team_state env w" d] g'
    by (simp_all add: save_team_state_effect)
  show "last_plot (state (finally_block env d w)) = last_plot (state w)"
    by (simp add: finally_block_def destroy_run_dir_effect stop_quietly_effect ps
        save_team_state_effect)
  show "last_plot_filename (state (finally_block env d w)) = last_plot_filename (state w)"
    by (simp add: finally_block_def destroy_run_dir_effect stop_quietly_effect ps
        save_team_state_effect)
  show "map_of (files (finally_block env d w)) q = map_of (files w) q"
    if "last_plot (state w) = Some q \<and> \<not> prefix d q" for q
    using that by (simp add: finally_block_def destroy_run_dir_outside stop_quietly_effect ps)
next
  show "map_of (files (destroy_run_dir env d w)) q = map_of (files w) q" if "\<not> prefix d q" for q
    using that by (rule destroy_run_dir_outside)
next
  show "\<not> path_exists (files (destroy_run_dir env d w)) q"
    if "rmtree_fault env = None \<and> is_dir (files w) d" "prefix d q" for q
    using that destroy_run_dir_inside by blast
next
  show "\<not> prefix (TEMP_DIR @ [rid]) (promotion_dest env (files w) d)"
    if "CHR ''_'' \<notin> set rid" for rid
    using that by (rule promotion_dest_outside)
qed

theorem run_dir_removal_keeps_slot_witness:
  "last_plot (state (finally_block env_example [''temp'', ''0123456789abcdef0123456789abcdef'']
       world_no_plots)) = Some [''temp'', ''ffff_old.png'']
   \<and> map_of (files (finally_block env_example [''temp'', ''0123456789abcdef0123456789abcdef'']
       world_no_plots)) [''temp'', ''ffff_old.png''] = Some (File ''old plot'' 3)
   \<and> \<not> path_exists (files (destroy_run_dir env_example
          [''temp'', ''0123456789abcdef0123456789abcdef''] world_no_plots))
        [''temp'', ''0123456789abcdef0123456789abcdef'', ''data2.csv'']
   \<and> \<not> path_exists (files (destroy_run_dir env_example
          [''temp'', ''0123456789abcdef0123456789abcdef''] world_no_plots))
        [''temp'', ''0123456789abcdef0123456789abcdef'']"
proof -
  let ?d = "[''temp'', ''0123456789abcdef0123456789abcdef'']"
  have g: "glob_png (files world_no_plots) ?d = []" by code_simp
  have s: "last_plot (state world_no_plots) = Some [''temp'', ''ffff_old.png'']"
    "map_of (files world_no_plots) [''temp'', ''ffff_old.png''] = Some (File ''old plot'' 3)"
    by code_simp+
  have o: "\<not> prefix ?d [''temp'', ''ffff_old.png'']" by simp
  have r: "rmtree_fault env_example = None \<and> is_dir (files world_no_plots) ?d" by code_simp
  have i: "prefix ?d [''temp'', ''0123456789abcdef0123456789abcdef'', ''data2.csv'']"
    "prefix ?d ?d"
    by simp_all
  from run_dir_removal_keeps_slot[of world_no_plots ?d env_example] g s o r i
  show ?thesis by metis
qed

end
